theory Spec2Isabelle
  imports Complex_Main
begin

section \<open>Python and numpy values\<close>

text \<open>
  The notebooks compute with numpy arrays of \<open>float64\<close> and \<open>int32\<close>. An array is a
  list. A finite \<open>float64\<close> is modelled by the real number it stands for, with no signed
  zero; the special values that numpy produces instead of raising, infinity and NaN,
  are constructors of their own. Sums, products, quotients, square roots and cosines of
  floats are taken exactly, with one exception: where the program turns a float into an
  integer, the length \<open>int(T*sample_frequency)\<close> of the time grid, the product is
  rounded as the machine rounds it (\<open>float64_round\<close> below), since there the rounding
  changes a count and not a last digit. An \<open>int32\<close> is an \<open>int\<close> kept in range by
  the wrap-around \<open>int32\<close>. Every exception the code can raise is a value of
  \<open>py_error\<close>, returned as \<open>Inl\<close>.
\<close>

datatype py_error = AssertionError | ValueError | ZeroDivisionError | OverflowError

datatype float64 = Fin real | PInf | NInf | NaN

definition int32 :: "int \<Rightarrow> int" where
  "int32 x = (x + 2147483648) mod 4294967296 - 2147483648"

text \<open>\<open>a / b\<close> for a Python int and a numpy integer: numpy's true division, which
  gives infinity or NaN on a zero divisor where Python's own would raise.\<close>

definition np_true_divide :: "int \<Rightarrow> int \<Rightarrow> float64" where
  "np_true_divide a b =
     (if b = 0 then (if a = 0 then NaN else if 0 < a then PInf else NInf)
      else Fin (real_of_int a / real_of_int b))"

fun np_multiply :: "float64 \<Rightarrow> float64 \<Rightarrow> float64" where
  "np_multiply NaN y = NaN"
| "np_multiply x NaN = NaN"
| "np_multiply (Fin a) (Fin b) = Fin (a * b)"
| "np_multiply (Fin a) PInf = (if a = 0 then NaN else if 0 < a then PInf else NInf)"
| "np_multiply (Fin a) NInf = (if a = 0 then NaN else if 0 < a then NInf else PInf)"
| "np_multiply PInf (Fin b) = (if b = 0 then NaN else if 0 < b then PInf else NInf)"
| "np_multiply NInf (Fin b) = (if b = 0 then NaN else if 0 < b then NInf else PInf)"
| "np_multiply PInf PInf = PInf"
| "np_multiply PInf NInf = NInf"
| "np_multiply NInf PInf = NInf"
| "np_multiply NInf NInf = PInf"

fun np_sqrt :: "float64 \<Rightarrow> float64" where
  "np_sqrt (Fin x) = (if x < 0 then NaN else Fin (sqrt x))"
| "np_sqrt PInf = PInf"
| "np_sqrt NInf = NaN"
| "np_sqrt NaN = NaN"

text \<open>
  Rounding of a real to \<open>float64\<close>: to the nearest number with a significand of 53
  bits, a tie going to the even significand; below \<open>2^-1022\<close> the spacing stays that of
  the subnormal numbers, and a result of \<open>2^1024\<close> or more in size is an infinity.
\<close>

definition round_half_even :: "real \<Rightarrow> int" where
  "round_half_even q =
     (let f = \<lfloor>q\<rfloor> in
      if q - real_of_int f < 1 / 2 then f
      else if 1 / 2 < q - real_of_int f then f + 1
      else if even f then f else f + 1)"

definition float64_round :: "real \<Rightarrow> float64" where
  "float64_round x =
     (if x = 0 then Fin 0
      else
        let e = max \<lfloor>log 2 \<bar>x\<bar>\<rfloor> (- 1022);
            ulp = 2 powr (real_of_int e - 52);
            r = real_of_int (round_half_even (x / ulp)) * ulp
        in if 2 ^ 1024 \<le> r then PInf
           else if r \<le> - (2 ^ 1024) then NInf
           else Fin r)"

text \<open>\<open>xs[a:b]\<close>: a negative bound counts from the end, and both are clipped to the
  array.\<close>

definition py_slice :: "'a list \<Rightarrow> int \<Rightarrow> int \<Rightarrow> 'a list" where
  "py_slice xs a b =
     (let n = int (length xs);
          lo = (if a < 0 then max (a + n) 0 else min a n);
          hi = (if b < 0 then max (b + n) 0 else min b n)
      in take (nat (hi - lo)) (drop (nat lo) xs))"

text \<open>\<open>np.cumsum\<close>, the running sums of an array.\<close>

fun cumsum_from :: "int \<Rightarrow> int list \<Rightarrow> int list" where
  "cumsum_from acc [] = []"
| "cumsum_from acc (x # xs) = (acc + x) # cumsum_from (acc + x) xs"

definition cumsum :: "int list \<Rightarrow> int list" where
  "cumsum xs = cumsum_from 0 xs"

section \<open>The one-sided spectrum\<close>

text \<open>
  \<open>np.fft.rfft\<close> is numpy's, not the notebooks'. It is taken by its documented
  definition: for a real input of length \<open>n\<close> the bins \<open>k = 0, ..., n div 2\<close> of the
  discrete Fourier transform, and \<open>ValueError\<close> for an empty input.
\<close>

definition dft_bin :: "real list \<Rightarrow> nat \<Rightarrow> complex" where
  "dft_bin a k =
     (\<Sum>m<length a. of_real (a ! m) * cis (- (2 * pi * real m * real k / real (length a))))"

definition rfft :: "real list \<Rightarrow> py_error + complex list" where
  "rfft a =
     (if length a = 0 then Inl ValueError
      else Inr (map (dft_bin a) [0..<length a div 2 + 1]))"

section \<open>The band-energy feature extractor\<close>

text \<open>
  \<^verbatim>\<open>
  def extract_features(signal, N, sampling_frequency):
      rfft = np.fft.rfft(signal)
      f_per_band = len(rfft)//N
      rem = len(rfft) % N
      freq_per_band = np.full(N, f_per_band, dtype=np.int32)
      freq_per_band[:rem]+=1
      offsets= np.zeros(N+1, dtype=np.int32)
      offsets[1:] = np.cumsum(freq_per_band)
      RMS_amplitude = np.zeros(N, dtype=np.float64)
      mag = 1/len(signal) * np.abs(rfft)
      for i in range(N):
          RMS_amplitude[i] = np.sqrt(1/(offsets[i+1]-offsets[i])*np.sum(mag[offsets[i]:offsets[i+1]]**2))
      return RMS_amplitude
  \<close>
  \<open>freq_per_band L N\<close> and \<open>offsets L N\<close> are the two \<open>int32\<close> arrays for a spectrum
  of length \<open>L\<close>; they are built only once \<open>N\<close> is known to be positive, so \<open>rem\<close> is
  not negative and \<open>[:rem]\<close> is the first \<open>rem\<close> entries.
\<close>

definition freq_per_band :: "nat \<Rightarrow> int \<Rightarrow> int list" where
  "freq_per_band L N =
     (let f_per_band = int L div N;
          rem = int L mod N;
          full = replicate (nat N) (int32 f_per_band)
      in map (\<lambda>b. int32 (b + 1)) (take (nat rem) full) @ drop (nat rem) full)"

definition offsets :: "nat \<Rightarrow> int \<Rightarrow> int list" where
  "offsets L N = 0 # map int32 (cumsum (freq_per_band L N))"

definition band_rms :: "real list \<Rightarrow> int \<Rightarrow> int \<Rightarrow> float64" where
  "band_rms mag lo hi =
     np_sqrt (np_multiply (np_true_divide 1 (int32 (hi - lo)))
                (Fin (sum_list (map (\<lambda>x. x ^ 2) (py_slice mag lo hi)))))"

definition magnitudes :: "real list \<Rightarrow> complex list \<Rightarrow> real list" where
  "magnitudes signal spec = map (\<lambda>z. 1 / real (length signal) * cmod z) spec"

definition extract_features :: "real list \<Rightarrow> int \<Rightarrow> int \<Rightarrow> py_error + float64 list" where
  "extract_features signal N sampling_frequency =
     (case rfft signal of
        Inl e \<Rightarrow> Inl e
      | Inr spec \<Rightarrow>
          if N = 0 then Inl ZeroDivisionError
          else if N < 0 then Inl ValueError
          else
            let offs = offsets (length spec) N;
                mag = magnitudes signal spec
            in Inr (map (\<lambda>i. band_rms mag (offs ! i) (offs ! (i + 1))) [0..<nat N]))"

text \<open>
  The band partition in the words of the specification: band \<open>i\<close> has size
  \<open>base + (1 if i < remainder else 0)\<close> with \<open>base = floor(L / N)\<close> and
  \<open>remainder = L mod N\<close>, and starts where the bands before it end.
\<close>

definition spec_band_size :: "nat \<Rightarrow> nat \<Rightarrow> nat \<Rightarrow> nat" where
  "spec_band_size L N i = L div N + (if i < L mod N then 1 else 0)"

definition spec_band_start :: "nat \<Rightarrow> nat \<Rightarrow> nat \<Rightarrow> nat" where
  "spec_band_start L N i = (\<Sum>j<i. spec_band_size L N j)"

section \<open>Random generators\<close>

text \<open>
  The notebooks use two generators: \<open>rs\<close>, the \<open>RandomState\<close> seeded at module level,
  and the global generator behind \<open>np.random.randn\<close>. A generator is numpy's; it is
  modelled by what its seed determines, the sequence of variates it hands out (read as
  unit-interval doubles by \<open>uniform\<close>, \<open>random\<close> and \<open>random_integers\<close>, and as standard
  normal variates by \<open>randn\<close>), and by the number of variates drawn so far. A draw of
  \<open>count\<close> values returns the next \<open>count\<close> variates and advances the generator.
  \<open>uniform(low, high)\<close> scales a unit-interval double to \<open>low + (high - low) * u\<close>;
  \<open>rs.random\<close> (\<open>random_sample\<close> here, its other name in numpy) returns the doubles as
  they are; \<open>random_integers(low, high)\<close>, whose documented range is the closed interval
  from \<open>low\<close> to \<open>high\<close>, cuts the unit interval into \<open>high - low + 1\<close> equal parts.
\<close>

record rng =
  doubles :: "nat \<Rightarrow> real"
  normals :: "nat \<Rightarrow> real"
  consumed :: nat

definition advance :: "nat \<Rightarrow> rng \<Rightarrow> rng" where
  "advance k g = g\<lparr>consumed := consumed g + k\<rparr>"

definition uniform :: "real \<Rightarrow> real \<Rightarrow> nat \<Rightarrow> rng \<Rightarrow> real list \<times> rng" where
  "uniform low high count g =
     (map (\<lambda>j. low + (high - low) * doubles g (consumed g + j)) [0..<count], advance count g)"

definition random_sample :: "nat \<Rightarrow> rng \<Rightarrow> real list \<times> rng" where
  "random_sample count g = (map (\<lambda>j. doubles g (consumed g + j)) [0..<count], advance count g)"

definition random_integers :: "int \<Rightarrow> int \<Rightarrow> nat \<Rightarrow> rng \<Rightarrow> int list \<times> rng" where
  "random_integers low high count g =
     (map (\<lambda>j. low + \<lfloor>real_of_int (high - low + 1) * doubles g (consumed g + j)\<rfloor>) [0..<count],
      advance count g)"

definition randn :: "nat \<Rightarrow> rng \<Rightarrow> real list \<times> rng" where
  "randn count g = (map (\<lambda>j. normals g (consumed g + j)) [0..<count], advance count g)"

text \<open>The state outside the functions: the two generators.\<close>

record world =
  rs :: rng
  np_random :: rng

section \<open>The signal synthesizer\<close>

text \<open>\<open>int(x)\<close> of a float truncates towards zero.\<close>

definition py_int :: "real \<Rightarrow> int" where
  "py_int x = (if 0 \<le> x then \<lfloor>x\<rfloor> else \<lceil>x\<rceil>)"

text \<open>\<open>np.linspace(start, stop, num, endpoint=False)\<close>: \<open>num\<close> points from \<open>start\<close>
  in steps of \<open>(stop - start) / num\<close>; a negative \<open>num\<close> is a \<open>ValueError\<close>.\<close>

definition linspace :: "real \<Rightarrow> real \<Rightarrow> int \<Rightarrow> py_error + real list" where
  "linspace start stop num =
     (if num < 0 then Inl ValueError
      else Inr (map (\<lambda>k. real k * ((stop - start) / real_of_int num) + start) [0..<nat num]))"

text \<open>Python's \<open>sum\<close> of a list of arrays: it starts from \<open>0\<close>, which the first
  addition broadcasts over the time grid.\<close>

definition sum_arrays :: "nat \<Rightarrow> real list list \<Rightarrow> real list" where
  "sum_arrays n terms = foldl (\<lambda>acc term. map2 (+) acc term) (replicate n 0) terms"

text \<open>
  \<^verbatim>\<open>
  def generate_noisy_signal(sample_frequency, amplitudes, frequencies, phases,
                            noise=1, T=2.):
      N = int(T*sample_frequency)
      t = np.linspace(0, T, N, endpoint=False)
      assert len(frequencies) == len(phases)
      assert len(amplitudes) == len(phases)
      n = noise*np.random.randn(len(t))
      return t, n+sum([A*np.cos(2*np.pi*f*t+p) for (A,f,p) in zip(amplitudes, frequencies, phases)])
  \<close>
  \<open>sample_count\<close> is its first line, \<open>N = int(T*sample_frequency)\<close>: the Python int is
  converted to a float (\<open>OverflowError\<close> if it is too large), the product is rounded to
  a float, and \<open>int\<close> truncates it (\<open>OverflowError\<close> on an infinity). Every raise of the
  function comes before its draw from the global generator, so an error leaves the
  world as it was.
\<close>

definition sample_count :: "real \<Rightarrow> int \<Rightarrow> py_error + int" where
  "sample_count T sample_frequency =
     (case float64_round (real_of_int sample_frequency) of
        Fin fs \<Rightarrow>
          (case float64_round (T * fs) of
             Fin p \<Rightarrow> Inr (py_int p)
           | _ \<Rightarrow> Inl OverflowError)
      | _ \<Rightarrow> Inl OverflowError)"

definition generate_noisy_signal ::
  "world \<Rightarrow> int \<Rightarrow> real list \<Rightarrow> real list \<Rightarrow> real list \<Rightarrow> real \<Rightarrow> real
     \<Rightarrow> py_error + ((real list \<times> real list) \<times> world)" where
  "generate_noisy_signal w sample_frequency amplitudes frequencies phases noise T =
     (case sample_count T sample_frequency of
        Inl e \<Rightarrow> Inl e
      | Inr N \<Rightarrow>
          (case linspace 0 T N of
             Inl e \<Rightarrow> Inl e
           | Inr t \<Rightarrow>
               if length frequencies \<noteq> length phases then Inl AssertionError
               else if length amplitudes \<noteq> length phases then Inl AssertionError
               else
                 let (draws, g) = randn (length t) (np_random w);
                     n = map (\<lambda>d. noise * d) draws;
                     terms = map (\<lambda>(A, f, p). map (\<lambda>tk. A * cos (2 * pi * f * tk + p)) t)
                               (zip amplitudes (zip frequencies phases))
                 in Inr ((t, map2 (+) n (sum_arrays (length t) terms)), w\<lparr>np_random := g\<rparr>)))"

section \<open>The dataset builder\<close>

text \<open>\<open>str(i)\<close> of a non-negative integer, for the f-string of the feature names.\<close>

fun str_nat :: "nat \<Rightarrow> string" where
  "str_nat n =
     (if n < 10 then [char_of (48 + n)]
      else str_nat (n div 10) @ [char_of (48 + n mod 10)])"

definition feature_names :: "int \<Rightarrow> string list" where
  "feature_names num_windows =
     map (\<lambda>i. ''Signal amplitude integrated in frequency window '' @ str_nat i)
       [0..<nat num_windows]"

text \<open>
  The four draws from \<open>rs\<close> that open every variant of \<open>generate_database\<close>, in the
  order of the source (the left factor of the product for \<open>noise\<close> is drawn first):
  \<^verbatim>\<open>
      A = rs.uniform(-4, 4, size=num_samples)
      phase = np.pi * rs.random(num_samples)
      noise = rs.uniform(-2, 2, size=num_samples) * rs.random_integers(0,1, size=num_samples)
      frequencies = rs.uniform(0, fmax, size=num_samples)
  \<close>
  with \<open>fmax = sample_rate.value//2\<close> in \<open>ann.ipynb\<close> and \<open>20000\<close> in the two other
  notebooks.
\<close>

definition draw_samples ::
  "rng \<Rightarrow> nat \<Rightarrow> real \<Rightarrow> (real list \<times> real list \<times> real list \<times> real list) \<times> rng" where
  "draw_samples g num_samples fmax =
     (let (A, g1) = uniform (- 4) 4 num_samples g;
          (u, g2) = random_sample num_samples g1;
          phase = map (\<lambda>x. pi * x) u;
          (un, g3) = uniform (- 2) 2 num_samples g2;
          (b, g4) = random_integers 0 1 num_samples g3;
          noise = map2 (\<lambda>x k. x * real_of_int k) un b;
          (frequencies, g5) = uniform 0 fmax num_samples g4
      in ((A, phase, noise, frequencies), g5))"

text \<open>
  The loop over the samples, the same in every variant but for the label:
  \<^verbatim>\<open>
      for i in range(num_samples):
          _, signal = generate_noisy_signal(sample_rate.value, A[i:i+1], frequencies[i:i+1],
                                            phase[i:i+1],noise[i:i+1], T)
          features[i] = extract_features(signal, num_windows, sample_rate.value)
          labels[i] = ...
  \<close>
  \<open>noise[i:i+1]\<close> is an array of one element, which the product with the draws
  broadcasts: it acts as the scalar \<open>noise[i]\<close>. \<open>labels\<close> is an \<open>int32\<close> array. An
  exception ends the loop; the world it leaves behind is not part of the model.
\<close>

fun database_loop ::
  "(real \<Rightarrow> int) \<Rightarrow> int \<Rightarrow> real \<Rightarrow> int \<Rightarrow> real list \<Rightarrow> real list \<Rightarrow> real list \<Rightarrow> real list
     \<Rightarrow> nat list \<Rightarrow> world \<Rightarrow> py_error + ((float64 list list \<times> int list) \<times> world)" where
  "database_loop label sample_rate T num_windows A frequencies phase noise [] w = Inr (([], []), w)"
| "database_loop label sample_rate T num_windows A frequencies phase noise (i # rest) w =
     (case generate_noisy_signal w sample_rate
             (py_slice A (int i) (int i + 1)) (py_slice frequencies (int i) (int i + 1))
             (py_slice phase (int i) (int i + 1)) (noise ! i) T of
        Inl e \<Rightarrow> Inl e
      | Inr ((t, signal), w1) \<Rightarrow>
          (case extract_features signal num_windows sample_rate of
             Inl e \<Rightarrow> Inl e
           | Inr row \<Rightarrow>
               (case database_loop label sample_rate T num_windows A frequencies phase noise rest w1 of
                  Inl e \<Rightarrow> Inl e
                | Inr ((rows, labels), w2) \<Rightarrow>
                    Inr ((row # rows, int32 (label (frequencies ! i)) # labels), w2))))"

text \<open>
  What the three variants share: the draws, the two zero arrays (a negative dimension
  is a \<open>ValueError\<close>), the loop, the target map and the feature names. \<open>sample_rate\<close> is
  the value of the notebook's slider, read from the global scope.
\<close>

definition database_body ::
  "real \<Rightarrow> (real \<Rightarrow> int) \<Rightarrow> (int \<rightharpoonup> string) \<Rightarrow> world \<Rightarrow> int \<Rightarrow> int \<Rightarrow> real \<Rightarrow> int
     \<Rightarrow> py_error + ((float64 list list \<times> int list \<times> string list \<times> (int \<rightharpoonup> string)) \<times> world)" where
  "database_body fmax label target_map w sample_rate num_samples T num_windows =
     (if num_samples < 0 then Inl ValueError
      else
        let ((A, phase, noise, frequencies), g) = draw_samples (rs w) (nat num_samples) fmax in
        if num_windows < 0 then Inl ValueError
        else
          case database_loop label sample_rate T num_windows A frequencies phase noise
                 [0..<nat num_samples] (w\<lparr>rs := g\<rparr>) of
            Inl e \<Rightarrow> Inl e
          | Inr ((features, labels), w') \<Rightarrow>
              Inr ((features, labels, feature_names num_windows, target_map), w'))"

text \<open>
  \<open>ann.ipynb\<close>:
  \<^verbatim>\<open>
  def generate_database(num_samples, T, num_windows, high=3, low=7, threshold=8e3):
      ...
      frequencies = rs.uniform(0, sample_rate.value//2, size=num_samples)
      ...
          labels[i] = high if frequencies[i]>threshold else low
      target_map = {low:"low", high:"high"}
  \<close>
\<close>

definition generate_database ::
  "world \<Rightarrow> int \<Rightarrow> int \<Rightarrow> real \<Rightarrow> int \<Rightarrow> int \<Rightarrow> int \<Rightarrow> real
     \<Rightarrow> py_error + ((float64 list list \<times> int list \<times> string list \<times> (int \<rightharpoonup> string)) \<times> world)" where
  "generate_database w sample_rate num_samples T num_windows high low threshold =
     database_body (real_of_int (sample_rate div 2))
       (\<lambda>f. if threshold < f then high else low)
       (Map.empty(low \<mapsto> ''low'', high \<mapsto> ''high''))
       w sample_rate num_samples T num_windows"

text \<open>
  The k-nearest-neighbours notebook (\<open>src/unnamed/part_002\<close>):
  \<^verbatim>\<open>
  def generate_database(num_samples=100, T=2, num_windows=2):
      ...
      frequencies = rs.uniform(0, 20000, size=num_samples)
      ...
          labels[i] = 1 + np.int32(frequencies[i] > 8e3)
      target_map = {1:"low", 2:"high"}
  \<close>
\<close>

definition label_8k :: "real \<Rightarrow> int" where
  "label_8k f = 1 + int32 (if 8000 < f then 1 else 0)"

definition generate_database_knn ::
  "world \<Rightarrow> int \<Rightarrow> int \<Rightarrow> real \<Rightarrow> int
     \<Rightarrow> py_error + ((float64 list list \<times> int list \<times> string list \<times> (int \<rightharpoonup> string)) \<times> world)" where
  "generate_database_knn w sample_rate num_samples T num_windows =
     database_body 20000 label_8k (Map.empty(1 \<mapsto> ''low'', 2 \<mapsto> ''high''))
       w sample_rate num_samples T num_windows"

text \<open>
  The other copy of the network notebook (\<open>src/unnamed/part_003\<close>): the labels of the
  k-nearest-neighbours notebook, with another target map.
  \<^verbatim>\<open>
  def generate_database(num_samples, T, num_windows):
      ...
      frequencies = rs.uniform(0, 20000, size=num_samples)
      ...
          labels[i] = 1 + np.int32(frequencies[i] > 8e3)
      target_map = {0:"low", 1:"high"}
  \<close>
\<close>

definition generate_database_ann0 ::
  "world \<Rightarrow> int \<Rightarrow> int \<Rightarrow> real \<Rightarrow> int
     \<Rightarrow> py_error + ((float64 list list \<times> int list \<times> string list \<times> (int \<rightharpoonup> string)) \<times> world)" where
  "generate_database_ann0 w sample_rate num_samples T num_windows =
     database_body 20000 label_8k (Map.empty(0 \<mapsto> ''low'', 1 \<mapsto> ''high''))
       w sample_rate num_samples T num_windows"

section \<open>Index arithmetic of the band partition\<close>

text \<open>
  As long as the spectrum length fits \<open>int32\<close>, nothing wraps: the entries of
  \<open>freq_per_band\<close> are the band sizes and the entries of \<open>offsets\<close> their running
  sums.
\<close>

lemma int32_id: "- 2147483648 \<le> x \<Longrightarrow> x < 2147483648 \<Longrightarrow> int32 x = x"
  by (simp add: int32_def)

lemma int32_small: "int32 0 = 0" "int32 1 = 1"
  by (simp_all add: int32_def)

lemma int32_two: "int32 2 = 2"
  by (simp add: int32_def)

lemma length_cumsum_from: "length (cumsum_from a xs) = length xs"
  by (induction xs arbitrary: a) simp_all

lemma length_freq_per_band: "length (freq_per_band L N) = nat N"
  by (simp add: freq_per_band_def Let_def)

lemma length_offsets: "length (offsets L N) = Suc (nat N)"
  by (simp add: offsets_def cumsum_def length_cumsum_from length_freq_per_band)

lemma cumsum_from_nth:
  "i < length xs \<Longrightarrow> cumsum_from a xs ! i = a + sum_list (take (Suc i) xs)"
proof (induction xs arbitrary: a i)
  case Nil
  then show ?case by simp
next
  case (Cons x xs)
  then show ?case by (cases i) simp_all
qed

lemma freq_per_band_nth:
  assumes "0 < N" "int L < 2147483648" "i < nat N"
  shows "freq_per_band L N ! i = int L div N + (if int i < int L mod N then 1 else 0)"
proof -
  let ?b = "int L div N" and ?r = "int L mod N"
  have b0: "0 \<le> ?b" using assms(1) by (simp add: pos_imp_zdiv_nonneg_iff)
  have r0: "0 \<le> ?r" "?r < N" using assms(1) by simp_all
  have eq: "int L = N * ?b + ?r" by simp
  have bN: "?b \<le> N * ?b" using assms(1) b0 by (simp add: mult_le_cancel_right1)
  have bL: "?b \<le> int L" using eq bN r0 by linarith
  have b1: "0 < ?r \<Longrightarrow> ?b + 1 \<le> int L"
  proof -
    assume "0 < ?r"
    with bN eq show ?thesis by linarith
  qed
  have ib: "int32 ?b = ?b" using b0 bL assms(2) by (intro int32_id) linarith+
  show ?thesis
  proof (cases "int i < ?r")
    case True
    then have "0 < ?r" by linarith
    then have ib1: "int32 (?b + 1) = ?b + 1" using b1 b0 assms(2) by (intro int32_id) linarith+
    from True have "i < nat ?r" by linarith
    then show ?thesis using True assms(3) r0
      by (simp add: freq_per_band_def Let_def nth_append ib ib1)
  next
    case False
    then have "\<not> i < nat ?r" by linarith
    then show ?thesis using False assms(3) r0
      by (simp add: freq_per_band_def Let_def nth_append ib)
  qed
qed

lemma sum_take_freq_per_band:
  assumes "0 < N" "int L < 2147483648"
  shows "k \<le> nat N \<Longrightarrow>
    sum_list (take k (freq_per_band L N)) = int k * (int L div N) + min (int k) (int L mod N)"
proof (induction k)
  case 0
  then show ?case using assms(1) by simp
next
  case (Suc k)
  then have k: "k < nat N" by simp
  then have "take (Suc k) (freq_per_band L N) = take k (freq_per_band L N) @ [freq_per_band L N ! k]"
    by (simp add: take_Suc_conv_app_nth length_freq_per_band)
  then show ?case using Suc k freq_per_band_nth [OF assms k]
    by (simp add: algebra_simps min_def)
qed

lemma offsets_nth:
  assumes "0 < N" "int L < 2147483648" "i \<le> nat N"
  shows "offsets L N ! i = int i * (int L div N) + min (int i) (int L mod N)"
proof (cases i)
  case 0
  then show ?thesis using assms(1) by (simp add: offsets_def)
next
  case (Suc j)
  let ?b = "int L div N" and ?r = "int L mod N"
  have j: "j < nat N" using Suc assms(3) by simp
  have b0: "0 \<le> ?b" using assms(1) by (simp add: pos_imp_zdiv_nonneg_iff)
  have r0: "0 \<le> ?r" "?r < N" using assms(1) by simp_all
  have eq: "int L = N * ?b + ?r" by simp
  let ?v = "int i * ?b + min (int i) ?r"
  have "int i \<le> N" using assms(1,3) by linarith
  then have "int i * ?b \<le> N * ?b" using b0 by (intro mult_right_mono)
  then have vL: "?v \<le> int L" using eq by linarith
  have v0: "0 \<le> ?v" using b0 r0 by simp
  have "offsets L N ! i = int32 (cumsum (freq_per_band L N) ! j)"
    using Suc j by (simp add: offsets_def cumsum_def length_cumsum_from length_freq_per_band)
  also have "cumsum (freq_per_band L N) ! j = sum_list (take (Suc j) (freq_per_band L N))"
    using j by (simp add: cumsum_def cumsum_from_nth length_freq_per_band)
  also have "\<dots> = ?v" using sum_take_freq_per_band [OF assms(1,2), of "Suc j"] j Suc by simp
  also have "int32 ?v = ?v" using v0 vL assms(2) by (intro int32_id) linarith+
  finally show ?thesis .
qed

text \<open>
  The code's offsets are the band starts of the specification.
\<close>

lemma spec_band_start_closed:
  "i \<le> N \<Longrightarrow> spec_band_start L N i = i * (L div N) + min i (L mod N)"
proof (induction i)
  case 0
  then show ?case by (simp add: spec_band_start_def)
next
  case (Suc i)
  then have "spec_band_start L N (Suc i) = spec_band_start L N i + spec_band_size L N i"
    by (simp add: spec_band_start_def)
  with Suc show ?case by (simp add: spec_band_size_def min_def)
qed

lemma spec_band_start_Suc:
  "spec_band_start L N (Suc i) = spec_band_start L N i + spec_band_size L N i"
  by (simp add: spec_band_start_def)

lemma spec_band_start_top:
  assumes "0 < N"
  shows "spec_band_start L N N = L"
proof -
  have "L mod N < N" using assms by simp
  then have "spec_band_start L N N = N * (L div N) + L mod N"
    by (simp add: spec_band_start_closed min_def)
  then show ?thesis by simp
qed

lemma spec_band_start_mono:
  "i \<le> j \<Longrightarrow> spec_band_start L N i \<le> spec_band_start L N j"
  unfolding spec_band_start_def by (intro sum_mono2) auto

lemma offsets_spec:
  assumes "0 < N" "L < 2147483648" "i \<le> N"
  shows "offsets L (int N) ! i = int (spec_band_start L N i)"
proof -
  have "offsets L (int N) ! i = int i * (int L div int N) + min (int i) (int L mod int N)"
    using assms by (intro offsets_nth) simp_all
  also have "\<dots> = int (i * (L div N) + min i (L mod N))"
  proof -
    have d: "int L div int N = int (L div N)" by (simp add: zdiv_int)
    have m: "int L mod int N = int (L mod N)" by (simp add: zmod_int)
    show ?thesis unfolding d m by (simp add: min_def)
  qed
  finally show ?thesis using assms(3) by (simp add: spec_band_start_closed)
qed

lemma spec_band_size_pos: "0 < N \<Longrightarrow> N \<le> L \<Longrightarrow> 0 < spec_band_size L N i"
  by (simp add: spec_band_size_def div_greater_zero_iff)

lemma larger_bands: "0 < N \<Longrightarrow> {i. i < N \<and> spec_band_size L N i = L div N + 1} = {..<L mod N}"
proof -
  assume "0 < N"
  then have "L mod N < N" by simp
  then show ?thesis by (auto simp: spec_band_size_def)
qed

lemma smaller_bands: "0 < N \<Longrightarrow> {i. i < N \<and> spec_band_size L N i = L div N} = {L mod N..<N}"
  by (auto simp: spec_band_size_def)

text \<open>
  Slices between consecutive offsets, laid end to end, read the array once.
\<close>

lemma py_slice_in_range:
  "0 \<le> a \<Longrightarrow> a \<le> b \<Longrightarrow> b \<le> int (length xs) \<Longrightarrow>
     py_slice xs a b = take (nat (b - a)) (drop (nat a) xs)"
  by (simp add: py_slice_def Let_def min_def)

lemma py_slice_same: "py_slice xs a a = []"
  by (simp add: py_slice_def Let_def)

lemma py_slice_single: "i < length xs \<Longrightarrow> py_slice xs (int i) (int i + 1) = [xs ! i]"
  by (simp add: py_slice_def Let_def min_def take_Suc_conv_app_nth)

lemma py_slice_head: "py_slice [x] 0 1 = [x]"
  by (simp add: py_slice_def)

lemma sum_list_take_drop:
  "a + n \<le> length xs \<Longrightarrow> sum_list (map f (take n (drop a xs))) = (\<Sum>k = a..<a + n. f (xs ! k))"
proof (induction n)
  case 0
  then show ?case by simp
next
  case (Suc n)
  then have "take (Suc n) (drop a xs) = take n (drop a xs) @ [xs ! (a + n)]"
    by (simp add: take_Suc_conv_app_nth)
  with Suc show ?case by simp
qed

lemma concat_bands:
  fixes f :: "nat \<Rightarrow> nat"
  assumes "f 0 = 0" "\<And>i. i < n \<Longrightarrow> f i \<le> f (Suc i)"
  shows "concat (map (\<lambda>i. take (f (Suc i) - f i) (drop (f i) xs)) [0..<n]) = take (f n) xs"
  using assms(2)
proof (induction n)
  case 0
  then show ?case using assms(1) by simp
next
  case (Suc n)
  then have le: "f n \<le> f (Suc n)" by simp
  have "take (f (Suc n)) xs = take (f n + (f (Suc n) - f n)) xs" using le by simp
  also have "\<dots> = take (f n) xs @ take (f (Suc n) - f n) (drop (f n) xs)"
    by (rule take_add)
  finally show ?case using Suc by simp
qed

section \<open>The bands cover the spectrum\<close>

text \<open>
  Claim C2. For a band count \<open>N\<close> and a spectrum length \<open>L\<close> with \<open>1 \<le> N \<le> L\<close>
  (and \<open>L\<close> in the range of the \<open>int32\<close> offsets), the offsets computed by
  \<open>extract_features\<close> delimit \<open>N\<close> bands: they start at \<open>0\<close> and end at \<open>L\<close>, band \<open>i\<close>
  runs from \<open>offsets[i]\<close> to \<open>offsets[i+1]\<close>, is not empty and has size
  \<open>floor(L/N) + 1\<close> if \<open>i < L mod N\<close> and \<open>floor(L/N)\<close> otherwise; exactly \<open>L mod N\<close> bands
  have the larger size and the other \<open>N - L mod N\<close> the smaller; and the slices of the
  bands, in order, make up any array of length \<open>L\<close> again, so every index of
  \<open>[0, L)\<close> is covered exactly once.
\<close>

theorem band_partition:
  assumes "1 \<le> N" "N \<le> L" "L < 2147483648"
  shows "length (offsets L (int N)) = N + 1
    \<and> offsets L (int N) ! 0 = 0
    \<and> offsets L (int N) ! N = int L
    \<and> (\<forall>i<N. offsets L (int N) ! (i + 1) - offsets L (int N) ! i = int (spec_band_size L N i)
          \<and> offsets L (int N) ! i < offsets L (int N) ! (i + 1))
    \<and> card {i. i < N \<and> offsets L (int N) ! (i + 1) - offsets L (int N) ! i = int (L div N) + 1} = L mod N
    \<and> card {i. i < N \<and> offsets L (int N) ! (i + 1) - offsets L (int N) ! i = int (L div N)} = N - L mod N
    \<and> (\<forall>xs :: 'a list. length xs = L \<longrightarrow>
          concat (map (\<lambda>i. py_slice xs (offsets L (int N) ! i) (offsets L (int N) ! (i + 1))) [0..<N]) = xs)"
proof -
  have N: "0 < N" using assms(1) by simp
  have off: "offsets L (int N) ! i = int (spec_band_start L N i)" if "i \<le> N" for i
    using N assms(3) that by (rule offsets_spec)
  have step: "offsets L (int N) ! (i + 1) - offsets L (int N) ! i = int (spec_band_size L N i)"
    if "i < N" for i
    using that off [of i] off [of "Suc i"] by (simp add: spec_band_start_Suc)
  have c1: "length (offsets L (int N)) = N + 1" by (simp add: length_offsets)
  have c2: "offsets L (int N) ! 0 = 0" by (simp add: offsets_def)
  have c3: "offsets L (int N) ! N = int L" using off [of N] N by (simp add: spec_band_start_top)
  have c4: "\<forall>i<N. offsets L (int N) ! (i + 1) - offsets L (int N) ! i = int (spec_band_size L N i)
          \<and> offsets L (int N) ! i < offsets L (int N) ! (i + 1)"
  proof (intro allI impI conjI)
    fix i assume i: "i < N"
    show "offsets L (int N) ! (i + 1) - offsets L (int N) ! i = int (spec_band_size L N i)"
      using i by (rule step)
    then show "offsets L (int N) ! i < offsets L (int N) ! (i + 1)"
      using spec_band_size_pos [OF N assms(2), of i] by linarith
  qed
  have "{i. i < N \<and> offsets L (int N) ! (i + 1) - offsets L (int N) ! i = int (L div N) + 1}
      = {i. i < N \<and> spec_band_size L N i = L div N + 1}"
    using step by auto
  then have c5: "card {i. i < N \<and> offsets L (int N) ! (i + 1) - offsets L (int N) ! i = int (L div N) + 1}
      = L mod N"
    using larger_bands [OF N, of L] by simp
  have "{i. i < N \<and> offsets L (int N) ! (i + 1) - offsets L (int N) ! i = int (L div N)}
      = {i. i < N \<and> spec_band_size L N i = L div N}"
    using step by auto
  then have c6: "card {i. i < N \<and> offsets L (int N) ! (i + 1) - offsets L (int N) ! i = int (L div N)}
      = N - L mod N"
    using smaller_bands [OF N, of L] by simp
  have c7: "\<forall>xs :: 'a list. length xs = L \<longrightarrow>
          concat (map (\<lambda>i. py_slice xs (offsets L (int N) ! i) (offsets L (int N) ! (i + 1))) [0..<N]) = xs"
  proof (intro allI impI)
    fix xs :: "'a list" assume len: "length xs = L"
    have "map (\<lambda>i. py_slice xs (offsets L (int N) ! i) (offsets L (int N) ! (i + 1))) [0..<N]
        = map (\<lambda>i. take (spec_band_start L N (Suc i) - spec_band_start L N i)
                     (drop (spec_band_start L N i) xs)) [0..<N]"
    proof (rule map_cong [OF refl])
      fix i assume "i \<in> set [0..<N]"
      then have i: "i < N" by simp
      have le: "spec_band_start L N i \<le> spec_band_start L N (Suc i)"
        by (simp add: spec_band_start_mono)
      have "spec_band_start L N (Suc i) \<le> spec_band_start L N N"
        using i by (intro spec_band_start_mono) simp
      then have top: "spec_band_start L N (Suc i) \<le> length xs"
        using N len by (simp add: spec_band_start_top)
      show "py_slice xs (offsets L (int N) ! i) (offsets L (int N) ! (i + 1))
          = take (spec_band_start L N (Suc i) - spec_band_start L N i)
              (drop (spec_band_start L N i) xs)"
        using i le top off [of i] off [of "Suc i"]
        by (simp add: py_slice_in_range nat_diff_distrib')
    qed
    also have "concat \<dots> = take (spec_band_start L N N) xs"
      by (rule concat_bands) (simp_all add: spec_band_start_def)
    finally show "concat (map (\<lambda>i. py_slice xs (offsets L (int N) ! i) (offsets L (int N) ! (i + 1))) [0..<N]) = xs"
      using N len by (simp add: spec_band_start_top)
  qed
  from c1 c2 c3 c4 c5 c6 c7 show ?thesis by blast
qed

theorem band_partition_witness:
  "(1::nat) \<le> 3 \<and> (3::nat) \<le> 10 \<and> (10::nat) < 2147483648
    \<and> length (offsets 10 (int 3)) = 4
    \<and> offsets 10 (int 3) ! 3 = 10
    \<and> offsets 10 (int 3) ! 1 - offsets 10 (int 3) ! 0 = 4
    \<and> concat (map (\<lambda>i. py_slice ''abcdefghij'' (offsets 10 (int 3) ! i) (offsets 10 (int 3) ! (i + 1))) [0..<3])
        = ''abcdefghij''"
proof -
  have h: "(1::nat) \<le> 3" "(3::nat) \<le> 10" "(10::nat) < 2147483648" by simp_all
  note p = band_partition [OF h, where 'a = char]
  from p have a: "length (offsets 10 (int 3)) = 4" by simp
  from p have b: "offsets 10 (int 3) ! 3 = 10" by simp
  from p have "\<forall>i<3. offsets 10 (int 3) ! (i + 1) - offsets 10 (int 3) ! i = int (spec_band_size 10 3 i)"
    by blast
  then have "offsets 10 (int 3) ! (0 + 1) - offsets 10 (int 3) ! 0 = int (spec_band_size 10 3 0)"
    by simp
  then have c: "offsets 10 (int 3) ! 1 - offsets 10 (int 3) ! 0 = 4"
    by (simp add: spec_band_size_def)
  from p have "\<forall>xs :: string. length xs = 10 \<longrightarrow>
      concat (map (\<lambda>i. py_slice xs (offsets 10 (int 3) ! i) (offsets 10 (int 3) ! (i + 1))) [0..<3]) = xs"
    by blast
  then have d: "concat (map (\<lambda>i. py_slice ''abcdefghij'' (offsets 10 (int 3) ! i) (offsets 10 (int 3) ! (i + 1))) [0..<3])
        = ''abcdefghij''"
    by simp
  from a b c d show ?thesis by simp
qed

section \<open>The feature vector returned\<close>

lemma length_magnitudes: "length (magnitudes signal spec) = length spec"
  by (simp add: magnitudes_def)

lemma magnitudes_nth:
  "k < length spec \<Longrightarrow> magnitudes signal spec ! k = 1 / real (length signal) * cmod (spec ! k)"
  by (simp add: magnitudes_def)

lemma band_rms_empty: "band_rms mag a a = NaN"
  by (simp add: band_rms_def py_slice_same int32_def np_true_divide_def)

lemma band_rms_nonempty:
  assumes "a < b" "b \<le> length mag" "length mag < 2147483648"
  shows "band_rms mag (int a) (int b) = Fin (sqrt ((\<Sum>k = a..<b. (mag ! k) ^ 2) / real (b - a)))"
proof -
  let ?s = "\<Sum>k = a..<b. (mag ! k) ^ 2"
  have d: "int32 (int b - int a) = int (b - a)"
    using assms by (subst int32_id) simp_all
  have "py_slice mag (int a) (int b) = take (b - a) (drop a mag)"
    using assms(1,2) by (simp add: py_slice_in_range nat_diff_distrib')
  then have s: "sum_list (map (\<lambda>x. x ^ 2) (py_slice mag (int a) (int b))) = ?s"
    using assms(1,2) sum_list_take_drop [of a "b - a" mag "\<lambda>x. x ^ 2"] by simp
  have pos: "0 \<le> ?s" by (intro sum_nonneg) simp
  have q: "np_true_divide 1 (int (b - a)) = Fin (1 / real (b - a))"
    using assms(1) by (simp add: np_true_divide_def)
  have nn: "\<not> 1 / real (b - a) * ?s < 0"
    using pos assms(1) by (simp add: not_less)
  show ?thesis
    unfolding band_rms_def d s q using nn by simp
qed

lemma extract_features_unfold:
  assumes "signal \<noteq> []" "0 < N"
  shows "extract_features signal N sf =
     Inr (map (\<lambda>i. band_rms (magnitudes signal (map (dft_bin signal) [0..<length signal div 2 + 1]))
                    (offsets (length signal div 2 + 1) N ! i)
                    (offsets (length signal div 2 + 1) N ! (i + 1))) [0..<nat N])"
  using assms by (simp add: extract_features_def rfft_def Let_def)

lemma offsets_surplus:
  assumes "int L < N" "L < 2147483648" "i \<le> nat N"
  shows "offsets L N ! i = int (min i L)"
proof -
  have N: "0 < N" using assms(1) by linarith
  have "offsets L N ! i = int i * (int L div N) + min (int i) (int L mod N)"
    using N assms(2,3) by (intro offsets_nth) simp_all
  moreover have "int L div N = 0" using assms(1) by (simp add: div_pos_pos_trivial)
  moreover have "int L mod N = int L" using assms(1) by (simp add: mod_pos_pos_trivial)
  ultimately show ?thesis by (simp add: min_def)
qed

lemma surplus_band_nan:
  assumes "int L < N" "L < 2147483648" "L \<le> i" "i < nat N"
  shows "band_rms mag (offsets L N ! i) (offsets L N ! (i + 1)) = NaN"
proof -
  have "offsets L N ! i = int (min i L)" using assms by (intro offsets_surplus) simp_all
  moreover have "offsets L N ! (i + 1) = int (min (i + 1) L)"
    using assms by (intro offsets_surplus) simp_all
  ultimately have "offsets L N ! (i + 1) = offsets L N ! i" using assms(3) by simp
  then show ?thesis by (simp add: band_rms_empty)
qed

lemma extract_features_one: "extract_features [x] 1 sf = Inr [Fin \<bar>x\<bar>]"
  by (simp add: extract_features_def rfft_def dft_bin_def magnitudes_def offsets_def
      freq_per_band_def cumsum_def band_rms_def py_slice_def np_true_divide_def int32_small
      Let_def)

text \<open>
  Claim C1. For a non-empty real signal with spectrum length \<open>L = len(signal) div 2 + 1\<close>
  and a band count \<open>N\<close> with \<open>1 \<le> N \<le> L\<close> (and \<open>L\<close> in the range of the \<open>int32\<close>
  offsets), \<open>extract_features\<close> returns a vector of exactly \<open>N\<close> values, and the
  \<open>i\<close>-th is the square root of the mean of the squared magnitudes in band \<open>i\<close>, the
  magnitudes being those of the one-sided transform scaled by \<open>1/len(signal)\<close>.
\<close>

theorem extract_features_band_rms:
  assumes "signal \<noteq> []" "L = length signal div 2 + 1" "1 \<le> N" "N \<le> L" "L < 2147483648"
  shows "extract_features signal (int N) sampling_frequency =
     Inr (map (\<lambda>i. Fin (sqrt ((\<Sum>k = spec_band_start L N i..<spec_band_start L N (i + 1).
                                  (1 / real (length signal) * cmod (dft_bin signal k)) ^ 2)
                               / real (spec_band_size L N i))))
            [0..<N])"
proof -
  let ?spec = "map (dft_bin signal) [0..<L]"
  let ?mag = "magnitudes signal ?spec"
  have N: "0 < N" using assms(3) by simp
  have lm: "length ?mag = L" by (simp add: length_magnitudes)
  have row: "band_rms ?mag (offsets L (int N) ! i) (offsets L (int N) ! (i + 1))
      = Fin (sqrt ((\<Sum>k = spec_band_start L N i..<spec_band_start L N (i + 1).
                       (1 / real (length signal) * cmod (dft_bin signal k)) ^ 2)
                   / real (spec_band_size L N i)))"
    if i: "i < N" for i
  proof -
    let ?a = "spec_band_start L N i" and ?b = "spec_band_start L N (i + 1)"
    have ba: "?b = ?a + spec_band_size L N i" by (simp add: spec_band_start_Suc)
    have lt: "?a < ?b" using ba spec_band_size_pos [OF N assms(4), of i] by simp
    have "?b \<le> spec_band_start L N N" using i by (intro spec_band_start_mono) simp
    then have top: "?b \<le> L" using N by (simp add: spec_band_start_top)
    have oa: "offsets L (int N) ! i = int ?a" using N assms(5) i by (intro offsets_spec) simp_all
    have ob: "offsets L (int N) ! (i + 1) = int ?b" using N assms(5) i by (intro offsets_spec) simp_all
    have "band_rms ?mag (int ?a) (int ?b) = Fin (sqrt ((\<Sum>k = ?a..<?b. (?mag ! k) ^ 2) / real (?b - ?a)))"
      using lt top assms(5) lm by (intro band_rms_nonempty) simp_all
    moreover have "(\<Sum>k = ?a..<?b. (?mag ! k) ^ 2)
        = (\<Sum>k = ?a..<?b. (1 / real (length signal) * cmod (dft_bin signal k)) ^ 2)"
    proof (rule sum.cong [OF refl])
      fix k assume "k \<in> {?a..<?b}"
      then have "k < L" using top by simp
      then show "(?mag ! k) ^ 2 = (1 / real (length signal) * cmod (dft_bin signal k)) ^ 2"
        by (simp add: magnitudes_nth)
    qed
    moreover have "?b - ?a = spec_band_size L N i" using ba by simp
    ultimately show ?thesis using oa ob by simp
  qed
  have "extract_features signal (int N) sampling_frequency
      = Inr (map (\<lambda>i. band_rms ?mag (offsets L (int N) ! i) (offsets L (int N) ! (i + 1))) [0..<N])"
    using assms(1,2) N by (simp add: extract_features_unfold)
  also have "map (\<lambda>i. band_rms ?mag (offsets L (int N) ! i) (offsets L (int N) ! (i + 1))) [0..<N]
      = map (\<lambda>i. Fin (sqrt ((\<Sum>k = spec_band_start L N i..<spec_band_start L N (i + 1).
                                  (1 / real (length signal) * cmod (dft_bin signal k)) ^ 2)
                               / real (spec_band_size L N i)))) [0..<N]"
  proof (rule map_cong [OF refl])
    fix i assume "i \<in> set [0..<N]"
    then have "i < N" by simp
    then show "band_rms ?mag (offsets L (int N) ! i) (offsets L (int N) ! (i + 1))
      = Fin (sqrt ((\<Sum>k = spec_band_start L N i..<spec_band_start L N (i + 1).
                       (1 / real (length signal) * cmod (dft_bin signal k)) ^ 2)
                   / real (spec_band_size L N i)))"
      by (rule row)
  qed
  finally show ?thesis .
qed

theorem extract_features_band_rms_witness:
  "[1, 0, - 1, 0] \<noteq> ([] :: real list)
   \<and> (3::nat) = length [1, 0, - 1, 0 :: real] div 2 + 1
   \<and> (1::nat) \<le> 2 \<and> (2::nat) \<le> 3 \<and> (3::nat) < 2147483648
   \<and> extract_features [1, 0, - 1, 0] (int 2) 4 =
       Inr (map (\<lambda>i. Fin (sqrt ((\<Sum>k = spec_band_start 3 2 i..<spec_band_start 3 2 (i + 1).
                                    (1 / real (length [1, 0, - 1, 0 :: real])
                                       * cmod (dft_bin [1, 0, - 1, 0] k)) ^ 2)
                                 / real (spec_band_size 3 2 i))))
              [0..<2])"
proof -
  have h: "[1, 0, - 1, 0] \<noteq> ([] :: real list)" "(3::nat) = length [1, 0, - 1, 0 :: real] div 2 + 1"
    "(1::nat) \<le> 2" "(2::nat) \<le> 3" "(3::nat) < 2147483648"
    by simp_all
  from extract_features_band_rms [OF h, of 4] h show ?thesis by blast
qed

text \<open>
  Claim C10. For a non-empty signal and a band count \<open>N \<ge> 1\<close>, \<open>extract_features\<close>
  returns a vector of length exactly \<open>N\<close>, also when \<open>N\<close> exceeds the spectrum length;
  the entries past the spectrum length are then the value of an empty band, NaN.
\<close>

theorem extract_features_length:
  assumes "signal \<noteq> []" "1 \<le> N"
  shows "\<exists>v. extract_features signal N sampling_frequency = Inr v \<and> length v = nat N
     \<and> (int (length signal div 2 + 1) < N \<and> length signal div 2 + 1 < 2147483648 \<longrightarrow>
          (\<forall>i. length signal div 2 + 1 \<le> i \<and> i < nat N \<longrightarrow> v ! i = NaN))"
proof -
  let ?L = "length signal div 2 + 1"
  let ?mag = "magnitudes signal (map (dft_bin signal) [0..<?L])"
  let ?v = "map (\<lambda>i. band_rms ?mag (offsets ?L N ! i) (offsets ?L N ! (i + 1))) [0..<nat N]"
  have v: "extract_features signal N sampling_frequency = Inr ?v"
    using assms by (simp add: extract_features_unfold)
  have "?v ! i = NaN" if "int ?L < N" "?L < 2147483648" "?L \<le> i" "i < nat N" for i
    using that surplus_band_nan [OF that, of ?mag] by simp
  then show ?thesis using v by (intro exI [of _ ?v]) simp
qed

theorem extract_features_length_witness:
  "[1] \<noteq> ([] :: real list) \<and> (1::int) \<le> 4
   \<and> (\<exists>v. extract_features [1] 4 16 = Inr v \<and> length v = nat 4 \<and> v ! 1 = NaN \<and> v ! 3 = NaN)"
proof -
  have h: "[1] \<noteq> ([] :: real list)" "(1::int) \<le> 4" by simp_all
  from extract_features_length [OF h, of 16]
  obtain v where v: "extract_features [1] 4 16 = Inr v" "length v = nat 4"
    and s: "int (length [1 :: real] div 2 + 1) < 4 \<and> length [1 :: real] div 2 + 1 < 2147483648 \<longrightarrow>
          (\<forall>i. length [1 :: real] div 2 + 1 \<le> i \<and> i < nat 4 \<longrightarrow> v ! i = NaN)"
    by blast
  from s have "\<forall>i. 1 \<le> i \<and> i < nat 4 \<longrightarrow> v ! i = NaN" by simp
  then have "v ! 1 = NaN" "v ! 3 = NaN" by simp_all
  with v h show ?thesis by blast
qed

text \<open>
  Claim C6. For a band count \<open>N\<close> greater than the spectrum length \<open>L\<close>, the bands
  \<open>L, ..., N - 1\<close> are empty and there is at least one of them; the value returned
  for each empty band is NaN (the code takes the square root of \<open>1/0 * 0\<close>). The
  first \<open>L\<close> bands hold one bin each and return its magnitude.
\<close>

theorem extract_features_empty_bands:
  assumes "signal \<noteq> []" "L = length signal div 2 + 1" "int L < N" "L < 2147483648"
  shows "\<exists>v. extract_features signal N sampling_frequency = Inr v \<and> length v = nat N
     \<and> L < nat N
     \<and> (\<forall>i. L \<le> i \<and> i < nat N \<longrightarrow>
           offsets L N ! (i + 1) = offsets L N ! i \<and> v ! i = NaN)
     \<and> (\<forall>i<L. offsets L N ! (i + 1) = offsets L N ! i + 1
           \<and> v ! i = Fin (1 / real (length signal) * cmod (dft_bin signal i)))"
proof -
  let ?mag = "magnitudes signal (map (dft_bin signal) [0..<L])"
  let ?v = "map (\<lambda>i. band_rms ?mag (offsets L N ! i) (offsets L N ! (i + 1))) [0..<nat N]"
  have N: "0 < N" using assms(3) by linarith
  have v: "extract_features signal N sampling_frequency = Inr ?v"
    using assms(1,2) N by (simp add: extract_features_unfold)
  have off: "offsets L N ! i = int (min i L)" if "i \<le> nat N" for i
    using assms(3,4) that by (rule offsets_surplus)
  have surplus: "offsets L N ! (i + 1) = offsets L N ! i \<and> ?v ! i = NaN"
    if "L \<le> i \<and> i < nat N" for i
  proof -
    have e: "offsets L N ! (i + 1) = offsets L N ! i"
      using that off [of i] off [of "i + 1"] by simp
    then show ?thesis using that by (simp add: band_rms_empty)
  qed
  have single: "offsets L N ! (i + 1) = offsets L N ! i + 1
      \<and> ?v ! i = Fin (1 / real (length signal) * cmod (dft_bin signal i))"
    if i: "i < L" for i
  proof -
    have iN: "i < nat N" using i assms(3) by linarith
    have oa: "offsets L N ! i = int i" using off [of i] i iN by simp
    have ob: "offsets L N ! (i + 1) = int (Suc i)" using off [of "i + 1"] i iN by simp
    have "band_rms ?mag (int i) (int (Suc i))
        = Fin (sqrt ((\<Sum>k = i..<Suc i. (?mag ! k) ^ 2) / real (Suc i - i)))"
      using i assms(4) by (intro band_rms_nonempty) (simp_all add: length_magnitudes)
    also have "\<dots> = Fin (1 / real (length signal) * cmod (dft_bin signal i))"
      using i by (simp add: magnitudes_nth)
    finally show ?thesis using oa ob iN by simp
  qed
  have "length ?v = nat N" by simp
  moreover have "L < nat N" using assms(3) by linarith
  ultimately show ?thesis using v surplus single by blast
qed

theorem extract_features_empty_bands_witness:
  "[1, 0, - 1, 0] \<noteq> ([] :: real list)
   \<and> (3::nat) = length [1, 0, - 1, 0 :: real] div 2 + 1
   \<and> int 3 < 5 \<and> (3::nat) < 2147483648
   \<and> (\<exists>v. extract_features [1, 0, - 1, 0] 5 4 = Inr v \<and> length v = 5
         \<and> v ! 3 = NaN \<and> v ! 4 = NaN)"
proof -
  have h: "[1, 0, - 1, 0] \<noteq> ([] :: real list)" "(3::nat) = length [1, 0, - 1, 0 :: real] div 2 + 1"
    "int 3 < 5" "(3::nat) < 2147483648"
    by simp_all
  from extract_features_empty_bands [OF h, of 4]
  obtain v where v: "extract_features [1, 0, - 1, 0] 5 4 = Inr v" "length v = nat 5"
    and s: "\<forall>i. 3 \<le> i \<and> i < nat 5 \<longrightarrow> offsets 3 5 ! (i + 1) = offsets 3 5 ! i \<and> v ! i = NaN"
    by blast
  from s have "v ! 3 = NaN" "v ! 4 = NaN" by simp_all
  with v h show ?thesis by simp
qed

section \<open>What the synthesizer returns and what it changes\<close>

text \<open>
  Rounding to \<open>float64\<close> leaves an integer below \<open>2^53\<close> in size as it is and keeps
  the sign; so the sample count is exact where the product is such an integer, and is
  not negative for a non-negative duration and sample rate.
\<close>

lemma round_half_even_of_int: "round_half_even (real_of_int n) = n"
  by (simp add: round_half_even_def)

lemma round_half_even_nonneg: "0 \<le> q \<Longrightarrow> 0 \<le> round_half_even q"
  by (simp add: round_half_even_def Let_def)

lemma float64_round_exponent:
  assumes "x \<noteq> 0" "2 powr real_of_int e \<le> \<bar>x\<bar>" "\<bar>x\<bar> < 2 powr (real_of_int e + 1)" "- 1022 \<le> e"
  shows "float64_round x =
     (let ulp = 2 powr (real_of_int e - 52);
          r = real_of_int (round_half_even (x / ulp)) * ulp
      in if 2 ^ 1024 \<le> r then PInf else if r \<le> - (2 ^ 1024) then NInf else Fin r)"
proof -
  have "0 < \<bar>x\<bar>" using assms(1) by simp
  then have "\<lfloor>log 2 \<bar>x\<bar>\<rfloor> = e"
    using assms(2,3) by (simp add: floor_log_eq_powr_iff)
  then have "max \<lfloor>log 2 \<bar>x\<bar>\<rfloor> (- 1022) = e" using assms(4) by simp
  then show ?thesis using assms(1) by (simp add: float64_round_def Let_def)
qed

lemma float64_round_of_int:
  assumes "\<bar>n\<bar> < 2 ^ 53"
  shows "float64_round (real_of_int n) = Fin (real_of_int n)"
proof (cases "n = 0")
  case True
  then show ?thesis by (simp add: float64_round_def)
next
  case False
  let ?a = "\<bar>real_of_int n\<bar>"
  let ?e = "\<lfloor>log 2 ?a\<rfloor>"
  have "1 \<le> \<bar>n\<bar>" using False by linarith
  then have "real_of_int 1 \<le> real_of_int \<bar>n\<bar>" by (simp only: of_int_le_iff)
  then have a1: "1 \<le> ?a" by simp
  have "real_of_int \<bar>n\<bar> < real_of_int (2 ^ 53)" using assms by (simp only: of_int_less_iff)
  then have a53: "?a < 2 ^ 53" by simp
  have e0: "0 \<le> ?e" using a1 by simp
  have "?a < 2 powr 53" using a53 by simp
  then have "log 2 ?a < 53" using a1 by (subst log_less_iff) simp_all
  then have e52: "?e \<le> 52" by (simp add: floor_le_iff)
  define k where "k = nat (52 - ?e)"
  have ke: "real_of_int ?e - 52 = - real k" using e52 by (simp add: k_def)
  have ulp: "2 powr (real_of_int ?e - 52) = 1 / 2 ^ k"
    unfolding ke by (simp add: powr_minus powr_realpow inverse_eq_divide)
  have q: "real_of_int n / (1 / 2 ^ k) = real_of_int (n * 2 ^ k)" by simp
  have r: "real_of_int (round_half_even (real_of_int n / (1 / 2 ^ k))) * (1 / 2 ^ k) = real_of_int n"
    unfolding q round_half_even_of_int by simp
  have big: "(2::real) ^ 53 \<le> 2 ^ 1024" by (rule power_increasing) simp_all
  have lo: "\<not> 2 ^ 1024 \<le> real_of_int n" using a53 big by linarith
  have hi: "\<not> real_of_int n \<le> - (2 ^ 1024)" using a53 big by linarith
  have m: "max ?e (- 1022) = ?e" using e0 by simp
  have nz: "real_of_int n \<noteq> 0" using False by simp
  have "float64_round (real_of_int n) =
      (if 2 ^ 1024 \<le> real_of_int n then PInf
       else if real_of_int n \<le> - (2 ^ 1024) then NInf else Fin (real_of_int n))"
    unfolding float64_round_def Let_def m ulp r using nz by (simp only: if_False)
  then show ?thesis using lo hi by (simp only: if_False)
qed

lemma float64_round_nonneg:
  assumes "0 \<le> x" "float64_round x = Fin r"
  shows "0 \<le> r"
proof (cases "x = 0")
  case True
  then show ?thesis using assms(2) by (simp add: float64_round_def)
next
  case False
  let ?ulp = "2 powr (real_of_int (max \<lfloor>log 2 \<bar>x\<bar>\<rfloor> (- 1022)) - 52)"
  have "0 \<le> x / ?ulp" using assms(1) by simp
  then have "0 \<le> round_half_even (x / ?ulp)" by (rule round_half_even_nonneg)
  then have "0 \<le> real_of_int (round_half_even (x / ?ulp)) * ?ulp" by simp
  then show ?thesis
    using False assms(2) by (simp add: float64_round_def Let_def split: if_splits)
qed

lemma sample_count_Fin:
  "float64_round (real_of_int fs) = Fin f \<Longrightarrow> float64_round (T * f) = Fin p \<Longrightarrow>
     sample_count T fs = Inr (py_int p)"
  by (simp add: sample_count_def)

lemma sample_count_InrD:
  assumes "sample_count T fs = Inr N"
  shows "\<exists>f p. float64_round (real_of_int fs) = Fin f \<and> float64_round (T * f) = Fin p \<and> N = py_int p"
proof (cases "float64_round (real_of_int fs)")
  case (Fin f)
  show ?thesis
  proof (cases "float64_round (T * f)")
    case (Fin p)
    then show ?thesis using assms \<open>float64_round (real_of_int fs) = Fin f\<close>
      by (simp add: sample_count_def)
  qed (use assms \<open>float64_round (real_of_int fs) = Fin f\<close> in \<open>simp_all add: sample_count_def\<close>)
qed (use assms in \<open>simp_all add: sample_count_def\<close>)

lemma sample_count_error:
  assumes "sample_count T fs = Inl e"
  shows "e = OverflowError"
proof (cases "float64_round (real_of_int fs)")
  case (Fin f)
  show ?thesis
  proof (cases "float64_round (T * f)")
    case (Fin p)
    then show ?thesis using assms \<open>float64_round (real_of_int fs) = Fin f\<close>
      by (simp add: sample_count_def)
  qed (use assms \<open>float64_round (real_of_int fs) = Fin f\<close> in \<open>simp_all add: sample_count_def\<close>)
qed (use assms in \<open>simp_all add: sample_count_def\<close>)

lemma sample_count_exact:
  assumes "\<bar>fs\<bar> < 2 ^ 53" "T * real_of_int fs = real_of_int m" "\<bar>m\<bar> < 2 ^ 53"
  shows "sample_count T fs = Inr m"
proof -
  have f: "float64_round (real_of_int fs) = Fin (real_of_int fs)"
    using assms(1) by (rule float64_round_of_int)
  have "float64_round (real_of_int m) = Fin (real_of_int m)"
    using assms(3) by (rule float64_round_of_int)
  then have p: "float64_round (T * real_of_int fs) = Fin (real_of_int m)"
    by (simp only: assms(2))
  have "py_int (real_of_int m) = m" by (simp add: py_int_def)
  with sample_count_Fin [OF f p] show ?thesis by simp
qed

lemma sample_count_nonneg:
  assumes "0 \<le> T" "0 \<le> fs" "sample_count T fs = Inr N"
  shows "0 \<le> N"
proof -
  from sample_count_InrD [OF assms(3)] obtain f p where f: "float64_round (real_of_int fs) = Fin f"
    and p: "float64_round (T * f) = Fin p" and N: "N = py_int p"
    by blast
  have "0 \<le> real_of_int fs" using assms(2) by simp
  then have "0 \<le> f" using f by (rule float64_round_nonneg)
  then have "0 \<le> T * f" using assms(1) by simp
  then have "0 \<le> p" using p by (rule float64_round_nonneg)
  then have "0 \<le> py_int p" by (simp add: py_int_def)
  then show ?thesis unfolding N .
qed

text \<open>
  The duration \<open>0.3\<close>, as the float nearest to it, at \<open>40000\<close> samples a second: the exact
  product lies below \<open>12000\<close>, the rounded one is \<open>12000\<close>, and so is the sample count.
\<close>

lemma sample_count_rounds:
  "5404319552844595 / 18014398509481984 * real_of_int 40000 < 12000
   \<and> sample_count (5404319552844595 / 18014398509481984) 40000 = Inr 12000"
proof -
  let ?x = "5404319552844595 / 18014398509481984 * (40000 :: real)"
  have fs: "float64_round (real_of_int 40000) = Fin (real_of_int 40000)"
    by (rule float64_round_of_int) simp
  have x: "float64_round ?x = Fin 12000"
    by (subst float64_round_exponent [of _ 13])
      (simp_all add: Let_def round_half_even_def powr_minus)
  have "sample_count (5404319552844595 / 18014398509481984) 40000 = Inr 12000"
    using fs x by (simp add: sample_count_def py_int_def)
  then show ?thesis by simp
qed

lemma linspace_ok:
  "0 \<le> num \<Longrightarrow> linspace 0 T num = Inr (map (\<lambda>k. real k * (T / real_of_int num)) [0..<nat num])"
  by (simp add: linspace_def)

lemma linspace_error: "num < 0 \<Longrightarrow> linspace 0 T num = Inl ValueError"
  by (simp add: linspace_def)

lemma sum_arrays_foldl:
  "length acc = n \<Longrightarrow> \<forall>term \<in> set terms. length term = n \<Longrightarrow>
     length (foldl (\<lambda>acc term. map2 (+) acc term) acc terms) = n
     \<and> (\<forall>k<n. foldl (\<lambda>acc term. map2 (+) acc term) acc terms ! k
                 = acc ! k + (\<Sum>j<length terms. terms ! j ! k))"
proof (induction terms arbitrary: acc)
  case Nil
  then show ?case by simp
next
  case (Cons x terms)
  let ?acc = "map2 (+) acc x"
  have lx: "length x = n" using Cons.prems(2) by simp
  have la: "length ?acc = n" using Cons.prems(1) lx by simp
  have rest: "\<forall>term \<in> set terms. length term = n" using Cons.prems(2) by simp
  note ih = Cons.IH [OF la rest]
  show ?case
  proof (intro conjI allI impI)
    show "length (foldl (\<lambda>acc term. map2 (+) acc term) acc (x # terms)) = n"
      using ih by simp
  next
    fix k assume k: "k < n"
    have "foldl (\<lambda>acc term. map2 (+) acc term) acc (x # terms) ! k
        = ?acc ! k + (\<Sum>j<length terms. terms ! j ! k)"
      using ih k by simp
    also have "?acc ! k = acc ! k + x ! k" using k lx Cons.prems(1) by simp
    also have "acc ! k + x ! k + (\<Sum>j<length terms. terms ! j ! k)
        = acc ! k + (\<Sum>j<length (x # terms). (x # terms) ! j ! k)"
      by (simp add: sum.lessThan_Suc_shift add.assoc del: sum.lessThan_Suc)
    finally show "foldl (\<lambda>acc term. map2 (+) acc term) acc (x # terms) ! k
        = acc ! k + (\<Sum>j<length (x # terms). (x # terms) ! j ! k)" .
  qed
qed


lemma length_sum_arrays:
  assumes "\<forall>term \<in> set terms. length term = n"
  shows "length (sum_arrays n terms) = n"
  using sum_arrays_foldl [of "replicate n 0" n terms] assms by (simp add: sum_arrays_def)

lemma zero_noise_draws: "map (\<lambda>d. 0 * d) (fst (randn n g)) = replicate n (0::real)"
  by (simp add: randn_def map_replicate_const comp_def)

lemma generate_noisy_signal_success:
  assumes "length amplitudes = length phases" "length frequencies = length phases"
    "sample_count T sample_frequency = Inr N" "0 \<le> N"
  shows "generate_noisy_signal w sample_frequency amplitudes frequencies phases noise T =
     Inr ((map (\<lambda>k. real k * (T / real_of_int N)) [0..<nat N],
           map2 (+)
             (map (\<lambda>d. noise * d) (fst (randn (nat N) (np_random w))))
             (sum_arrays (nat N)
                (map (\<lambda>(A, f, p). map (\<lambda>tk. A * cos (2 * pi * f * tk + p))
                        (map (\<lambda>k. real k * (T / real_of_int N)) [0..<nat N]))
                   (zip amplitudes (zip frequencies phases))))),
          w\<lparr>np_random := advance (nat N) (np_random w)\<rparr>)"
  using assms
  by (simp add: generate_noisy_signal_def Let_def linspace_ok randn_def split_def)

lemma generate_noisy_signal_length:
  assumes "length amplitudes = length phases" "length frequencies = length phases"
    "sample_count T sample_frequency = Inr N" "0 \<le> N"
  shows "\<exists>t s w'. generate_noisy_signal w sample_frequency amplitudes frequencies phases noise T
        = Inr ((t, s), w')
     \<and> length s = nat N"
proof -
  let ?t = "map (\<lambda>k. real k * (T / real_of_int N)) [0..<nat N]"
  let ?terms = "map (\<lambda>(A, f, p). map (\<lambda>tk. A * cos (2 * pi * f * tk + p)) ?t)
                   (zip amplitudes (zip frequencies phases))"
  have all: "\<forall>term \<in> set ?terms. length term = nat N" by auto
  have "length (map2 (+) (map (\<lambda>d. noise * d) (fst (randn (nat N) (np_random w)))) (sum_arrays (nat N) ?terms)) = nat N"
    using length_sum_arrays [OF all] by (simp add: randn_def)
  then show ?thesis
    using generate_noisy_signal_success [OF assms, of w noise] by blast
qed

lemma generate_noisy_signal_count_error:
  "sample_count T sample_frequency = Inl e \<Longrightarrow>
     generate_noisy_signal w sample_frequency amplitudes frequencies phases noise T = Inl e"
  by (simp add: generate_noisy_signal_def)

lemma generate_noisy_signal_negative_count:
  "sample_count T sample_frequency = Inr N \<Longrightarrow> N < 0 \<Longrightarrow>
     generate_noisy_signal w sample_frequency amplitudes frequencies phases noise T = Inl ValueError"
  by (simp add: generate_noisy_signal_def linspace_error)

lemma generate_noisy_signal_mismatch_aux:
  assumes "\<not> (length amplitudes = length frequencies \<and> length frequencies = length phases)"
    "sample_count T sample_frequency = Inr N" "0 \<le> N"
  shows "generate_noisy_signal w sample_frequency amplitudes frequencies phases noise T =
     Inl AssertionError"
  using assms by (auto simp: generate_noisy_signal_def linspace_ok)

lemma generate_noisy_signal_one:
  assumes "sample_count T sr = Inr 1"
  shows "generate_noisy_signal w sr [A] [f] [p] noise T =
     Inr (([0], [noise * normals (np_random w) (consumed (np_random w)) + A * cos p]),
          w\<lparr>np_random := advance 1 (np_random w)\<rparr>)"
  using assms
  by (simp add: generate_noisy_signal_def linspace_def randn_def sum_arrays_def Let_def)



text \<open>
  Claim C5. If the arrays of amplitudes, frequencies and phases do not all have the
  same length, the call returns no signal: it raises. Whenever the sample count
  \<open>int(T*fs)\<close> is not negative the exception is the assertion failure; for a
  non-negative duration and sample rate it is the assertion failure unless the
  product overflows the floats.
\<close>

theorem generate_noisy_signal_mismatch:
  assumes "\<not> (length amplitudes = length frequencies \<and> length frequencies = length phases)"
  shows "(\<exists>e. generate_noisy_signal w sample_frequency amplitudes frequencies phases noise T = Inl e)
     \<and> (\<forall>N. sample_count T sample_frequency = Inr N \<and> 0 \<le> N \<longrightarrow>
          generate_noisy_signal w sample_frequency amplitudes frequencies phases noise T
            = Inl AssertionError)
     \<and> (0 \<le> T \<and> 0 \<le> sample_frequency \<longrightarrow>
          generate_noisy_signal w sample_frequency amplitudes frequencies phases noise T
            = Inl AssertionError
          \<or> generate_noisy_signal w sample_frequency amplitudes frequencies phases noise T
            = Inl OverflowError
             \<and> sample_count T sample_frequency = Inl OverflowError)"
proof -
  let ?r = "generate_noisy_signal w sample_frequency amplitudes frequencies phases noise T"
  have overflow: "e = OverflowError" if "sample_count T sample_frequency = Inl e" for e
    using that by (rule sample_count_error)
  have a: "\<exists>e. ?r = Inl e"
  proof (cases "sample_count T sample_frequency")
    case (Inl e)
    then show ?thesis by (simp add: generate_noisy_signal_count_error)
  next
    case (Inr N)
    show ?thesis
    proof (cases "0 \<le> N")
      case True
      have "?r = Inl AssertionError"
        using assms Inr True by (rule generate_noisy_signal_mismatch_aux)
      then show ?thesis by simp
    next
      case False
      then have "N < 0" by simp
      with Inr have "?r = Inl ValueError" by (rule generate_noisy_signal_negative_count)
      then show ?thesis by simp
    qed
  qed
  have b: "\<forall>N. sample_count T sample_frequency = Inr N \<and> 0 \<le> N \<longrightarrow> ?r = Inl AssertionError"
  proof (intro allI impI)
    fix N assume "sample_count T sample_frequency = Inr N \<and> 0 \<le> N"
    then have "sample_count T sample_frequency = Inr N" "0 \<le> N" by simp_all
    with assms show "?r = Inl AssertionError" by (rule generate_noisy_signal_mismatch_aux)
  qed
  have c: "?r = Inl AssertionError
      \<or> ?r = Inl OverflowError \<and> sample_count T sample_frequency = Inl OverflowError"
    if nn: "0 \<le> T \<and> 0 \<le> sample_frequency"
  proof (cases "sample_count T sample_frequency")
    case (Inl e)
    then have "e = OverflowError" by (rule overflow)
    with Inl show ?thesis by (simp add: generate_noisy_signal_count_error)
  next
    case (Inr N)
    have "0 \<le> N" using nn Inr by (intro sample_count_nonneg [of T sample_frequency N]) simp_all
    with Inr b have "?r = Inl AssertionError" by blast
    then show ?thesis by simp
  qed
  show ?thesis
  proof (intro conjI impI)
    show "\<exists>e. ?r = Inl e" by (rule a)
    show "\<forall>N. sample_count T sample_frequency = Inr N \<and> 0 \<le> N \<longrightarrow> ?r = Inl AssertionError"
      by (rule b)
    assume "0 \<le> T \<and> 0 \<le> sample_frequency"
    then show "?r = Inl AssertionError
      \<or> ?r = Inl OverflowError \<and> sample_count T sample_frequency = Inl OverflowError"
      by (rule c)
  qed
qed

theorem generate_noisy_signal_mismatch_witness:
  "\<not> (length [1, 2 :: real] = length [1 :: real] \<and> length [1 :: real] = length [0 :: real])
   \<and> sample_count 1 16 = Inr 16 \<and> (0::int) \<le> 16
   \<and> generate_noisy_signal
          \<lparr>rs = \<lparr>doubles = (\<lambda>k. 0), normals = (\<lambda>k. 0), consumed = 0\<rparr>,
           np_random = \<lparr>doubles = (\<lambda>k. 0), normals = (\<lambda>k. 0), consumed = 0\<rparr>\<rparr>
          16 [1, 2] [1] [0] 1 1 = Inl AssertionError"
proof -
  have h: "\<not> (length [1, 2 :: real] = length [1 :: real] \<and> length [1 :: real] = length [0 :: real])"
    by simp
  have c: "sample_count 1 16 = Inr 16" by (rule sample_count_exact) simp_all
  have n: "(0::int) \<le> 16" by simp
  from generate_noisy_signal_mismatch [OF h, of _ 16 1 1] c n h show ?thesis by blast
qed

text \<open>
  Claim C8. With noise scale \<open>0\<close>, two calls with the same sample rate, amplitudes,
  frequencies, phases and duration return the same time grid and the same signal (or
  raise the same exception), whatever the state of the generators at either call.
\<close>

theorem generate_noisy_signal_zero_noise:
  "map_sum id fst (generate_noisy_signal w1 sample_frequency amplitudes frequencies phases 0 T)
     = map_sum id fst (generate_noisy_signal w2 sample_frequency amplitudes frequencies phases 0 T)"
proof (cases "sample_count T sample_frequency")
  case (Inl e)
  then show ?thesis by (simp add: generate_noisy_signal_def)
next
  case count: (Inr N)
  show ?thesis
  proof (cases "linspace 0 T N")
    case (Inl e)
    then show ?thesis using count by (simp add: generate_noisy_signal_def)
  next
    case (Inr t)
    then show ?thesis
      using count by (simp add: generate_noisy_signal_def Let_def split_def zero_noise_draws)
  qed
qed

text \<open>
  Claim C9, as the code has it. A call that returns leaves \<open>rs\<close> untouched and advances
  the global generator by one draw per sample of the signal; it changes nothing else.
  The claim itself, that no generator state is modified, fails: a call for sixteen
  samples with noise scale \<open>0\<close> moves the global generator from \<open>0\<close> draws to \<open>16\<close>.
\<close>

theorem generate_noisy_signal_frame:
  assumes "generate_noisy_signal w sample_frequency amplitudes frequencies phases noise T = Inr (r, w')"
  shows "rs w' = rs w
     \<and> np_random w' = advance (length (fst r)) (np_random w)
     \<and> doubles (np_random w') = doubles (np_random w)
     \<and> normals (np_random w') = normals (np_random w)
     \<and> consumed (np_random w') = consumed (np_random w) + length (fst r)"
proof -
  obtain N where count: "sample_count T sample_frequency = Inr N"
  proof (cases "sample_count T sample_frequency")
    case (Inl e)
    then have "generate_noisy_signal w sample_frequency amplitudes frequencies phases noise T = Inl e"
      by (rule generate_noisy_signal_count_error)
    with assms show ?thesis by simp
  next
    case (Inr N)
    then show ?thesis by (rule that)
  qed
  have nn: "0 \<le> N"
  proof (rule ccontr)
    assume "\<not> 0 \<le> N"
    then have "N < 0" by simp
    with count have "generate_noisy_signal w sample_frequency amplitudes frequencies phases noise T
      = Inl ValueError"
      by (rule generate_noisy_signal_negative_count)
    with assms show False by simp
  qed
  have eq: "length amplitudes = length frequencies \<and> length frequencies = length phases"
  proof (rule ccontr)
    assume "\<not> (length amplitudes = length frequencies \<and> length frequencies = length phases)"
    then have "generate_noisy_signal w sample_frequency amplitudes frequencies phases noise T
      = Inl AssertionError"
      using count nn by (rule generate_noisy_signal_mismatch_aux)
    with assms show False by simp
  qed
  then have l: "length amplitudes = length phases" "length frequencies = length phases" by simp_all
  from generate_noisy_signal_success [OF l count nn, of w noise] assms
  have r: "fst r = map (\<lambda>k. real k * (T / real_of_int N)) [0..<nat N]"
    and w': "w' = w\<lparr>np_random := advance (nat N) (np_random w)\<rparr>"
    by auto
  show ?thesis unfolding w' r by (simp add: advance_def)
qed

theorem generate_noisy_signal_frame_witness:
  "generate_noisy_signal
      \<lparr>rs = \<lparr>doubles = (\<lambda>k. 0), normals = (\<lambda>k. 0), consumed = 0\<rparr>,
       np_random = \<lparr>doubles = (\<lambda>k. 0), normals = (\<lambda>k. 1), consumed = 7\<rparr>\<rparr>
      1 [3] [2] [0] 2 1
    = Inr (([0], [5]),
        \<lparr>rs = \<lparr>doubles = (\<lambda>k. 0), normals = (\<lambda>k. 0), consumed = 0\<rparr>,
         np_random = \<lparr>doubles = (\<lambda>k. 0), normals = (\<lambda>k. 1), consumed = 8\<rparr>\<rparr>)
   \<and> consumed (np_random
        \<lparr>rs = \<lparr>doubles = (\<lambda>k. 0), normals = (\<lambda>k. 0), consumed = 0\<rparr>,
         np_random = \<lparr>doubles = (\<lambda>k. 0), normals = (\<lambda>k. 1), consumed = 8\<rparr>\<rparr>)
     = consumed (np_random
        \<lparr>rs = \<lparr>doubles = (\<lambda>k. 0), normals = (\<lambda>k. 0), consumed = 0\<rparr>,
         np_random = \<lparr>doubles = (\<lambda>k. 0), normals = (\<lambda>k. 1), consumed = 7\<rparr>\<rparr>)
       + length (fst ([0 :: real], [5 :: real]))"
proof -
  have T: "sample_count 1 1 = Inr 1" by (rule sample_count_exact) simp_all
  have r: "generate_noisy_signal
      \<lparr>rs = \<lparr>doubles = (\<lambda>k. 0), normals = (\<lambda>k. 0), consumed = 0\<rparr>,
       np_random = \<lparr>doubles = (\<lambda>k. 0), normals = (\<lambda>k. 1), consumed = 7\<rparr>\<rparr>
      1 [3] [2] [0] 2 1
    = Inr (([0], [5]),
        \<lparr>rs = \<lparr>doubles = (\<lambda>k. 0), normals = (\<lambda>k. 0), consumed = 0\<rparr>,
         np_random = \<lparr>doubles = (\<lambda>k. 0), normals = (\<lambda>k. 1), consumed = 8\<rparr>\<rparr>)"
    by (simp add: generate_noisy_signal_one [OF T] advance_def)
  from generate_noisy_signal_frame [OF r] r show ?thesis by blast
qed

text \<open>
  The scenario of the specification, sixteen samples of a pure tone with noise scale
  \<open>0\<close>: the global generator has made \<open>0\<close> draws before it and \<open>16\<close> after.
\<close>

theorem generate_noisy_signal_frame_counterexample:
  "map_sum id (\<lambda>(r, w'). consumed (np_random w'))
     (generate_noisy_signal
        \<lparr>rs = \<lparr>doubles = (\<lambda>k. 0), normals = (\<lambda>k. 0), consumed = 0\<rparr>,
         np_random = \<lparr>doubles = (\<lambda>k. 0), normals = (\<lambda>k. 0), consumed = 0\<rparr>\<rparr>
        16 [1] [2] [0] 0 1)
   = Inr 16"
proof -
  have c: "sample_count 1 16 = Inr 16" by (rule sample_count_exact) simp_all
  have h: "length [1 :: real] = length [0 :: real]" "length [2 :: real] = length [0 :: real]"
    "(0::int) \<le> 16"
    by simp_all
  show ?thesis
    by (simp add: generate_noisy_signal_success [OF h(1,2) c h(3)] advance_def)
qed

section \<open>Labels and reproducibility of the dataset\<close>

lemma draw_samples_result:
  "draw_samples g n fmax =
     ((map (\<lambda>j. - 4 + 8 * doubles g (consumed g + j)) [0..<n],
       map (\<lambda>j. pi * doubles g (consumed g + n + j)) [0..<n],
       map (\<lambda>j. (- 2 + 4 * doubles g (consumed g + 2 * n + j))
                 * real_of_int \<lfloor>2 * doubles g (consumed g + 3 * n + j)\<rfloor>) [0..<n],
       map (\<lambda>j. fmax * doubles g (consumed g + 4 * n + j)) [0..<n]),
      advance (5 * n) g)"
proof -
  have p: "n + (n + x) = 2 * n + x" "n + (n + (n + x)) = 3 * n + x"
    "n + (n + (n + (n + x))) = 4 * n + x" for x
    by simp_all
  show ?thesis
    by (simp add: draw_samples_def uniform_def random_sample_def random_integers_def advance_def
        Let_def map2_map_map add.assoc p)
qed

lemma draw_samples_frequencies:
  "snd (snd (snd (fst (draw_samples g n fmax))))
     = map (\<lambda>j. fmax * doubles g (consumed g + 4 * n + j)) [0..<n]"
  by (simp add: draw_samples_result)

lemma label_8k_values: "label_8k f = (if 8000 < f then 2 else 1)"
  by (simp add: label_8k_def int32_small)

lemma database_loop_labels:
  "database_loop label sr T nw A fr ph nz js w = Inr ((rows, labels), w') \<Longrightarrow>
     labels = map (\<lambda>i. int32 (label (fr ! i))) js \<and> length rows = length js"
proof (induction js arbitrary: w rows labels)
  case Nil
  then show ?case by simp
next
  case (Cons i js)
  from Cons.prems obtain t signal w1 row rows' labels' where
    rest: "database_loop label sr T nw A fr ph nz js w1 = Inr ((rows', labels'), w')"
    and out: "rows = row # rows'" "labels = int32 (label (fr ! i)) # labels'"
    by (auto split: sum.splits prod.splits)
  from Cons.IH [OF rest] out show ?case by simp
qed

lemma database_loop_total:
  assumes "sample_count T sr = Inr N" "1 \<le> N" "0 < nw"
    "length A = n" "length fr = n" "length ph = n"
  shows "\<forall>i \<in> set js. i < n \<Longrightarrow> \<exists>r w'. database_loop label sr T nw A fr ph nz js w = Inr (r, w')"
proof (induction js arbitrary: w)
  case Nil
  then show ?case by simp
next
  case (Cons i js)
  then have i: "i < n" by simp
  have pos: "0 < nat N" and nn: "0 \<le> N" using assms(2) by simp_all
  have l1: "length (py_slice A (int i) (int i + 1)) = length (py_slice ph (int i) (int i + 1))"
    using i assms(4,6) by (simp add: py_slice_single)
  have l2: "length (py_slice fr (int i) (int i + 1)) = length (py_slice ph (int i) (int i + 1))"
    using i assms(5,6) by (simp add: py_slice_single)
  from generate_noisy_signal_length [OF l1 l2 assms(1) nn, of w "nz ! i"]
  obtain t s w1 where
    g: "generate_noisy_signal w sr (py_slice A (int i) (int i + 1)) (py_slice fr (int i) (int i + 1))
          (py_slice ph (int i) (int i + 1)) (nz ! i) T = Inr ((t, s), w1)"
    and ls: "length s = nat N" by blast
  have "s \<noteq> []" using ls pos by auto
  then obtain row where e: "extract_features s nw sr = Inr row"
    using assms(3) by (simp add: extract_features_unfold)
  from Cons.IH [of w1] Cons.prems obtain r w' where
    "database_loop label sr T nw A fr ph nz js w1 = Inr (r, w')" by auto
  then show ?case using g e by (cases r) simp
qed

lemma database_body_labels:
  assumes "0 \<le> num_samples" "0 < num_windows" "sample_count T sr = Inr N" "1 \<le> N"
  shows "\<exists>features w'. database_body fmax label tm w sr num_samples T num_windows =
      Inr ((features,
            map (\<lambda>i. int32 (label (fmax * doubles (rs w) (consumed (rs w) + 4 * nat num_samples + i))))
              [0..<nat num_samples],
            feature_names num_windows, tm), w')
    \<and> length features = nat num_samples"
proof -
  let ?n = "nat num_samples"
  let ?g = "rs w"
  let ?A = "map (\<lambda>j. - 4 + 8 * doubles ?g (consumed ?g + j)) [0..<?n]"
  let ?ph = "map (\<lambda>j. pi * doubles ?g (consumed ?g + ?n + j)) [0..<?n]"
  let ?nz = "map (\<lambda>j. (- 2 + 4 * doubles ?g (consumed ?g + 2 * ?n + j))
                 * real_of_int \<lfloor>2 * doubles ?g (consumed ?g + 3 * ?n + j)\<rfloor>) [0..<?n]"
  let ?fr = "map (\<lambda>j. fmax * doubles ?g (consumed ?g + 4 * ?n + j)) [0..<?n]"
  let ?w = "w\<lparr>rs := advance (5 * ?n) ?g\<rparr>"
  have "\<exists>r w'. database_loop label sr T num_windows ?A ?fr ?ph ?nz [0..<?n] ?w = Inr (r, w')"
    by (rule database_loop_total [OF assms(3,4,2), of _ ?n]) simp_all
  then obtain rows labels w' where
    loop: "database_loop label sr T num_windows ?A ?fr ?ph ?nz [0..<?n] ?w = Inr ((rows, labels), w')"
    by (metis surj_pair)
  from database_loop_labels [OF loop]
  have lab: "labels = map (\<lambda>i. int32 (label (?fr ! i))) [0..<?n]" and len: "length rows = ?n"
    by simp_all
  have "map (\<lambda>i. int32 (label (?fr ! i))) [0..<?n]
      = map (\<lambda>i. int32 (label (fmax * doubles ?g (consumed ?g + 4 * ?n + i)))) [0..<?n]"
    by (rule map_cong [OF refl]) simp
  with lab have lab': "labels = map (\<lambda>i. int32 (label (fmax * doubles ?g (consumed ?g + 4 * ?n + i)))) [0..<?n]"
    by simp
  have "database_body fmax label tm w sr num_samples T num_windows =
      Inr ((rows, labels, feature_names num_windows, tm), w')"
    using assms(1,2) loop by (simp add: database_body_def draw_samples_result)
  then show ?thesis using lab' len by blast
qed

lemma database_body_one:
  assumes "sample_count T sr = Inr 1"
  shows "database_body fmax label tm w sr 1 T 1 =
     Inr (([[Fin \<bar>(- 2 + 4 * doubles (rs w) (consumed (rs w) + 2))
                      * real_of_int \<lfloor>2 * doubles (rs w) (consumed (rs w) + 3)\<rfloor>
                      * normals (np_random w) (consumed (np_random w))
                    + (- 4 + 8 * doubles (rs w) (consumed (rs w)))
                      * cos (pi * doubles (rs w) (consumed (rs w) + 1))\<bar>]],
           [int32 (label (fmax * doubles (rs w) (consumed (rs w) + 4)))],
           feature_names 1, tm),
          w\<lparr>rs := advance 5 (rs w), np_random := advance 1 (np_random w)\<rparr>)"
  by (simp add: database_body_def draw_samples_result py_slice_head
      generate_noisy_signal_one [OF assms] extract_features_one advance_def)

text \<open>
  Claim C7, in \<open>src/unnamed/part_003\<close>. The draws of \<open>rs\<close> give the frequencies
  \<open>500\<close> and \<open>9000\<close>. The sample at \<open>500\<close> gets label \<open>1\<close>, which the target map returned
  with it names "high"; the sample at \<open>9000\<close> gets label \<open>2\<close>, which the target map does
  not name at all.
\<close>

theorem generate_database_ann0_label_names:
  "snd (snd (snd (fst (draw_samples
       \<lparr>doubles = (\<lambda>k. if k = 8 then 1 / 40 else if k = 9 then 9 / 20 else 1 / 2),
        normals = (\<lambda>k. 0), consumed = 0\<rparr> 2 20000)))) = [500, 9000]
   \<and> map_sum id (\<lambda>((features, labels, names, target_map), w'). (labels, map target_map labels))
       (generate_database_ann0
          \<lparr>rs = \<lparr>doubles = (\<lambda>k. if k = 8 then 1 / 40 else if k = 9 then 9 / 20 else 1 / 2),
                 normals = (\<lambda>k. 0), consumed = 0\<rparr>,
           np_random = \<lparr>doubles = (\<lambda>k. 0), normals = (\<lambda>k. 0), consumed = 0\<rparr>\<rparr>
          40000 2 1 25)
     = Inr ([1, 2], [Some ''high'', None])"
proof -
  let ?g = "\<lparr>doubles = (\<lambda>k::nat. if k = 8 then 1 / 40 else if k = 9 then 9 / 20 else (1 / 2 :: real)),
        normals = (\<lambda>k::nat. 0::real), consumed = 0\<rparr>"
  let ?w = "\<lparr>rs = ?g, np_random = \<lparr>doubles = (\<lambda>k. 0), normals = (\<lambda>k. 0), consumed = 0\<rparr>\<rparr>"
  have u: "[0..<2] = [0, Suc 0]" by (simp add: upt_rec)
  have a: "snd (snd (snd (fst (draw_samples ?g 2 20000)))) = [500, 9000]"
    by (simp add: draw_samples_result u)
  have c: "sample_count 1 40000 = Inr 40000" by (rule sample_count_exact) simp_all
  have h: "(0::int) \<le> 2" "(0::int) < 25" "(1::int) \<le> 40000" by simp_all
  have "\<exists>features w'. generate_database_ann0 ?w 40000 2 1 25 =
       Inr ((features, [1, 2], feature_names 25, Map.empty(0 \<mapsto> ''low'', 1 \<mapsto> ''high'')), w')"
    using database_body_labels [OF h(1,2) c h(3), of 20000 label_8k "Map.empty(0 \<mapsto> ''low'', 1 \<mapsto> ''high'')" ?w]
    unfolding generate_database_ann0_def
    by (simp add: u label_8k_values int32_small int32_two) blast
  then obtain features w' where
    "generate_database_ann0 ?w 40000 2 1 25 =
       Inr ((features, [1, 2], feature_names 25, Map.empty(0 \<mapsto> ''low'', 1 \<mapsto> ''high'')), w')"
    by blast
  then have b: "map_sum id (\<lambda>((features, labels, names, target_map), w'). (labels, map target_map labels))
       (generate_database_ann0 ?w 40000 2 1 25) = Inr ([1, 2], [Some ''high'', None])"
    by simp
  from a b show ?thesis by simp
qed

text \<open>
  In \<open>ann.ipynb\<close> the label of every sample is named by the target map as the claim
  says, "high" above the threshold and "low" otherwise, provided \<open>high\<close> and \<open>low\<close>
  differ and fit the \<open>int32\<close> array of labels (the defaults \<open>3\<close> and \<open>7\<close> do).
\<close>

theorem generate_database_label_names:
  assumes "0 \<le> num_samples" "0 < num_windows" "sample_count T sample_rate = Inr N" "1 \<le> N"
    "high \<noteq> low" "- 2147483648 \<le> high" "high < 2147483648"
    "- 2147483648 \<le> low" "low < 2147483648"
  shows "\<exists>features labels names target_map w'.
      generate_database w sample_rate num_samples T num_windows high low threshold
        = Inr ((features, labels, names, target_map), w')
    \<and> length labels = nat num_samples
    \<and> (\<forall>i<nat num_samples. target_map (labels ! i) =
          Some (if threshold < snd (snd (snd (fst (draw_samples (rs w) (nat num_samples)
                                  (real_of_int (sample_rate div 2)))))) ! i
                then ''high'' else ''low''))"
proof -
  let ?n = "nat num_samples"
  let ?fmax = "real_of_int (sample_rate div 2)"
  let ?label = "\<lambda>f. if threshold < f then high else low"
  let ?tm = "Map.empty(low \<mapsto> ''low'', high \<mapsto> ''high'')"
  let ?f = "\<lambda>i. ?fmax * doubles (rs w) (consumed (rs w) + 4 * ?n + i)"
  let ?labels = "map (\<lambda>i. int32 (?label (?f i))) [0..<?n]"
  from database_body_labels [OF assms(1-4), of ?fmax ?label ?tm w]
  obtain features w' where
    res: "generate_database w sample_rate num_samples T num_windows high low threshold
        = Inr ((features, ?labels, feature_names num_windows, ?tm), w')"
    unfolding generate_database_def by blast
  have ih: "int32 high = high" using assms(6,7) by (rule int32_id)
  have il: "int32 low = low" using assms(8,9) by (rule int32_id)
  have "?tm (?labels ! i) =
      Some (if threshold < snd (snd (snd (fst (draw_samples (rs w) ?n ?fmax)))) ! i
            then ''high'' else ''low'')" if "i < ?n" for i
    using that assms(5) by (simp add: draw_samples_frequencies ih il)
  then show ?thesis using res by (intro exI conjI) (assumption, simp, blast)
qed

theorem generate_database_label_names_witness:
  "(0::int) \<le> 2 \<and> (0::int) < 25 \<and> sample_count 1 40000 = Inr 40000 \<and> (1::int) \<le> 40000 \<and> (3::int) \<noteq> 7
   \<and> - 2147483648 \<le> (3::int) \<and> (3::int) < 2147483648
   \<and> - 2147483648 \<le> (7::int) \<and> (7::int) < 2147483648
   \<and> (\<exists>features labels names target_map w'.
         generate_database
           \<lparr>rs = \<lparr>doubles = (\<lambda>k. if k = 8 then 1 / 40 else if k = 9 then 9 / 20 else 1 / 2),
                  normals = (\<lambda>k. 0), consumed = 0\<rparr>,
            np_random = \<lparr>doubles = (\<lambda>k. 0), normals = (\<lambda>k. 0), consumed = 0\<rparr>\<rparr>
           40000 2 1 25 3 7 8000
           = Inr ((features, labels, names, target_map), w')
       \<and> target_map (labels ! 0) = Some ''low'' \<and> target_map (labels ! 1) = Some ''high'')"
proof -
  let ?g = "\<lparr>doubles = (\<lambda>k::nat. if k = 8 then 1 / 40 else if k = 9 then 9 / 20 else (1 / 2 :: real)),
        normals = (\<lambda>k::nat. 0::real), consumed = 0\<rparr>"
  let ?w = "\<lparr>rs = ?g, np_random = \<lparr>doubles = (\<lambda>k. 0), normals = (\<lambda>k. 0), consumed = 0\<rparr>\<rparr>"
  have c: "sample_count 1 40000 = Inr 40000" by (rule sample_count_exact) simp_all
  have h: "(0::int) \<le> 2" "(0::int) < 25" "sample_count 1 40000 = Inr 40000" "(1::int) \<le> 40000"
    "(3::int) \<noteq> 7"
    "- 2147483648 \<le> (3::int)" "(3::int) < 2147483648"
    "- 2147483648 \<le> (7::int)" "(7::int) < 2147483648"
    using c by simp_all
  have u: "[0..<2] = [0, Suc 0]" by (simp add: upt_rec)
  have f: "snd (snd (snd (fst (draw_samples ?g (nat 2) (real_of_int (40000 div 2)))))) = [500, 9000]"
    by (simp add: draw_samples_result u)
  from generate_database_label_names [OF h, of ?w 8000]
  obtain features labels names target_map w' where
    r: "generate_database ?w 40000 2 1 25 3 7 8000 = Inr ((features, labels, names, target_map), w')"
    and l: "\<forall>i<nat 2. target_map (labels ! i) =
          Some (if 8000 < snd (snd (snd (fst (draw_samples (rs ?w) (nat 2)
                                  (real_of_int (40000 div 2)))))) ! i
                then ''high'' else ''low'')"
    by blast
  from l [rule_format, of 0] f have a: "target_map (labels ! 0) = Some ''low''" by simp
  from l [rule_format, of 1] f have b: "target_map (labels ! 1) = Some ''high''" by simp
  from r a b h show ?thesis by blast
qed

text \<open>
  So it is in the k-nearest-neighbours notebook, with the labels \<open>1\<close> and \<open>2\<close>.
\<close>

theorem generate_database_knn_label_names:
  assumes "0 \<le> num_samples" "0 < num_windows" "sample_count T sample_rate = Inr N" "1 \<le> N"
  shows "\<exists>features labels names target_map w'.
      generate_database_knn w sample_rate num_samples T num_windows
        = Inr ((features, labels, names, target_map), w')
    \<and> length labels = nat num_samples
    \<and> (\<forall>i<nat num_samples. target_map (labels ! i) =
          Some (if 8000 < snd (snd (snd (fst (draw_samples (rs w) (nat num_samples) 20000)))) ! i
                then ''high'' else ''low''))"
proof -
  let ?n = "nat num_samples"
  let ?tm = "Map.empty((1::int) \<mapsto> ''low'', 2 \<mapsto> ''high'')"
  let ?f = "\<lambda>i. 20000 * doubles (rs w) (consumed (rs w) + 4 * ?n + i)"
  let ?labels = "map (\<lambda>i. int32 (label_8k (?f i))) [0..<?n]"
  from database_body_labels [OF assms(1-4), of 20000 label_8k ?tm w]
  obtain features w' where
    res: "generate_database_knn w sample_rate num_samples T num_windows
        = Inr ((features, ?labels, feature_names num_windows, ?tm), w')"
    unfolding generate_database_knn_def by blast
  have "?tm (?labels ! i) =
      Some (if 8000 < snd (snd (snd (fst (draw_samples (rs w) ?n 20000)))) ! i
            then ''high'' else ''low'')" if "i < ?n" for i
    using that by (simp add: draw_samples_frequencies label_8k_values int32_small int32_two)
  then show ?thesis using res by (intro exI conjI) (assumption, simp, blast)
qed

theorem generate_database_knn_label_names_witness:
  "(0::int) \<le> 2 \<and> (0::int) < 25 \<and> sample_count 1 40000 = Inr 40000 \<and> (1::int) \<le> 40000
   \<and> (\<exists>features labels names target_map w'.
         generate_database_knn
           \<lparr>rs = \<lparr>doubles = (\<lambda>k. if k = 8 then 1 / 40 else if k = 9 then 9 / 20 else 1 / 2),
                  normals = (\<lambda>k. 0), consumed = 0\<rparr>,
            np_random = \<lparr>doubles = (\<lambda>k. 0), normals = (\<lambda>k. 0), consumed = 0\<rparr>\<rparr>
           40000 2 1 25
           = Inr ((features, labels, names, target_map), w')
       \<and> target_map (labels ! 0) = Some ''low'' \<and> target_map (labels ! 1) = Some ''high'')"
proof -
  let ?g = "\<lparr>doubles = (\<lambda>k::nat. if k = 8 then 1 / 40 else if k = 9 then 9 / 20 else (1 / 2 :: real)),
        normals = (\<lambda>k::nat. 0::real), consumed = 0\<rparr>"
  let ?w = "\<lparr>rs = ?g, np_random = \<lparr>doubles = (\<lambda>k. 0), normals = (\<lambda>k. 0), consumed = 0\<rparr>\<rparr>"
  have c: "sample_count 1 40000 = Inr 40000" by (rule sample_count_exact) simp_all
  have h: "(0::int) \<le> 2" "(0::int) < 25" "sample_count 1 40000 = Inr 40000" "(1::int) \<le> 40000"
    using c by simp_all
  have u: "[0..<2] = [0, Suc 0]" by (simp add: upt_rec)
  have f: "snd (snd (snd (fst (draw_samples ?g (nat 2) 20000)))) = [500, 9000]"
    by (simp add: draw_samples_result u)
  from generate_database_knn_label_names [OF h, of ?w]
  obtain features labels names target_map w' where
    r: "generate_database_knn ?w 40000 2 1 25 = Inr ((features, labels, names, target_map), w')"
    and l: "\<forall>i<nat 2. target_map (labels ! i) =
          Some (if 8000 < snd (snd (snd (fst (draw_samples (rs ?w) (nat 2) 20000)))) ! i
                then ''high'' else ''low'')"
    by blast
  from l [rule_format, of 0] f have a: "target_map (labels ! 0) = Some ''low''" by simp
  from l [rule_format, of 1] f have b: "target_map (labels ! 1) = Some ''high''" by simp
  from r a b h show ?thesis by blast
qed

text \<open>
  Claim C4, in the k-nearest-neighbours notebook. Two runs start from the same state of
  \<open>rs\<close>; the global generator, which \<open>generate_noisy_signal\<close> draws the noise from and
  which \<open>rs\<close> does not seed, hands out \<open>0\<close> in the first run and \<open>1\<close> in the second. The
  label vectors are equal and the feature matrices differ.
\<close>

theorem generate_database_knn_noise_not_seeded:
  "map_sum id (\<lambda>((features, labels, names, target_map), w'). (features, labels))
       (generate_database_knn
          \<lparr>rs = \<lparr>doubles = (\<lambda>k. if k = 2 then 3 / 4 else 1 / 2), normals = (\<lambda>k. 0), consumed = 0\<rparr>,
           np_random = \<lparr>doubles = (\<lambda>k. 0), normals = (\<lambda>k. 0), consumed = 0\<rparr>\<rparr>
          16384 1 (1 / 16384) 1)
     = Inr ([[Fin 0]], [2])
   \<and> map_sum id (\<lambda>((features, labels, names, target_map), w'). (features, labels))
       (generate_database_knn
          \<lparr>rs = \<lparr>doubles = (\<lambda>k. if k = 2 then 3 / 4 else 1 / 2), normals = (\<lambda>k. 0), consumed = 0\<rparr>,
           np_random = \<lparr>doubles = (\<lambda>k. 0), normals = (\<lambda>k. 1), consumed = 0\<rparr>\<rparr>
          16384 1 (1 / 16384) 1)
     = Inr ([[Fin 1]], [2])"
proof -
  have T: "sample_count (1 / 16384) 16384 = Inr 1" by (rule sample_count_exact) simp_all
  show ?thesis
    unfolding generate_database_knn_def
    by (simp add: database_body_one [OF T] label_8k_values int32_two)
qed

text \<open>
  The labels, the feature names and the target map are fixed by the state of \<open>rs\<close>
  alone.
\<close>

theorem generate_database_labels_seeded:
  assumes "rs w1 = rs w2" "0 \<le> num_samples" "0 < num_windows" "sample_count T sample_rate = Inr N" "1 \<le> N"
  shows "\<exists>features1 features2 labels names target_map w1' w2'.
      generate_database_knn w1 sample_rate num_samples T num_windows
        = Inr ((features1, labels, names, target_map), w1')
    \<and> generate_database_knn w2 sample_rate num_samples T num_windows
        = Inr ((features2, labels, names, target_map), w2')"
proof -
  let ?tm = "Map.empty((1::int) \<mapsto> ''low'', 2 \<mapsto> ''high'')"
  from database_body_labels [OF assms(2-5), of 20000 label_8k ?tm w1]
  obtain f1 w1' where a: "generate_database_knn w1 sample_rate num_samples T num_windows
      = Inr ((f1, map (\<lambda>i. int32 (label_8k (20000 * doubles (rs w1)
           (consumed (rs w1) + 4 * nat num_samples + i)))) [0..<nat num_samples],
           feature_names num_windows, ?tm), w1')"
    unfolding generate_database_knn_def by blast
  from database_body_labels [OF assms(2-5), of 20000 label_8k ?tm w2]
  obtain f2 w2' where b: "generate_database_knn w2 sample_rate num_samples T num_windows
      = Inr ((f2, map (\<lambda>i. int32 (label_8k (20000 * doubles (rs w2)
           (consumed (rs w2) + 4 * nat num_samples + i)))) [0..<nat num_samples],
           feature_names num_windows, ?tm), w2')"
    unfolding generate_database_knn_def by blast
  from a b assms(1) show ?thesis by auto
qed

theorem generate_database_labels_seeded_witness:
  "rs \<lparr>rs = \<lparr>doubles = (\<lambda>k. 1 / 2), normals = (\<lambda>k. 0), consumed = 0\<rparr>,
       np_random = \<lparr>doubles = (\<lambda>k. 0), normals = (\<lambda>k. 0), consumed = 0\<rparr>\<rparr>
     = rs \<lparr>rs = \<lparr>doubles = (\<lambda>k. 1 / 2), normals = (\<lambda>k. 0), consumed = 0\<rparr>,
          np_random = \<lparr>doubles = (\<lambda>k. 0), normals = (\<lambda>k. 1), consumed = 3\<rparr>\<rparr>
   \<and> (0::int) \<le> 2 \<and> (0::int) < 25 \<and> sample_count 1 40000 = Inr 40000 \<and> (1::int) \<le> 40000
   \<and> (\<exists>features1 features2 labels names target_map w1' w2'.
      generate_database_knn
        \<lparr>rs = \<lparr>doubles = (\<lambda>k. 1 / 2), normals = (\<lambda>k. 0), consumed = 0\<rparr>,
         np_random = \<lparr>doubles = (\<lambda>k. 0), normals = (\<lambda>k. 0), consumed = 0\<rparr>\<rparr> 40000 2 1 25
        = Inr ((features1, labels, names, target_map), w1')
    \<and> generate_database_knn
        \<lparr>rs = \<lparr>doubles = (\<lambda>k. 1 / 2), normals = (\<lambda>k. 0), consumed = 0\<rparr>,
         np_random = \<lparr>doubles = (\<lambda>k. 0), normals = (\<lambda>k. 1), consumed = 3\<rparr>\<rparr> 40000 2 1 25
        = Inr ((features2, labels, names, target_map), w2'))"
proof -
  have h: "rs \<lparr>rs = \<lparr>doubles = (\<lambda>k. 1 / 2), normals = (\<lambda>k. 0), consumed = 0\<rparr>,
       np_random = \<lparr>doubles = (\<lambda>k. 0), normals = (\<lambda>k. 0), consumed = 0\<rparr>\<rparr>
     = rs \<lparr>rs = \<lparr>doubles = (\<lambda>k. 1 / 2), normals = (\<lambda>k. 0), consumed = 0\<rparr>,
          np_random = \<lparr>doubles = (\<lambda>k. 0), normals = (\<lambda>k. 1), consumed = 3\<rparr>\<rparr>"
    "(0::int) \<le> 2" "(0::int) < 25" "sample_count 1 40000 = Inr 40000" "(1::int) \<le> 40000"
    by (simp_all add: sample_count_exact)
  from generate_database_labels_seeded [OF h] h show ?thesis by blast
qed

end
